theory Spec2Isabelle
  imports Complex_Main "HOL-Library.Multiset" "HOL-Library.Log_Nat"
begin

text \<open>
  The notebooks fit the line \<open>y = a + b * x\<close> to synthetic data by gradient descent: first
  with NumPy and hand-written gradients, then with autograd, then with mini-batches from a
  \<open>DataLoader\<close> and a validation phase. This theory embeds that code. Arrays and tensors of
  shape \<open>(n, 1)\<close> are lists of their rows. Numbers are reals: the formulas of the NumPy loop
  are first taken in exact arithmetic, and where the two arithmetics of the code matter
  (\<open>float64\<close> arrays in NumPy, \<open>float32\<close> tensors in torch) every operation is followed by
  an explicit rounding function. Exceptions are values of \<open>py_error\<close>.
\<close>

section \<open>Gradient descent with NumPy\<close>

text \<open>
  \<open>InvalidArgument\<close> stands for Python's \<open>ValueError\<close>, the kind of error the specification
  calls InvalidArgument.
\<close>

datatype py_error = TypeError | InvalidArgument | IndexError | AssertionError | AttributeError

text \<open>
  \<open>v.mean()\<close>. On an empty array NumPy returns \<open>nan\<close>, which is no real number: the
  theorems below that depend on a mean assume a non-empty batch.
\<close>

definition np_mean :: "real list \<Rightarrow> real" where
  "np_mean v = sum_list v / real (length v)"

text \<open>
  The body of the training loop of the first notebook:
  \<^verbatim>\<open>
  for epoch in range(n_epochs):
      yhat = a + b * x_train
      error = (y_train - yhat)
      loss = (error ** 2).mean()
      a_grad = -2 * error.mean()
      b_grad = -2 * (x_train * error).mean()
      a = a - lr * a_grad
      b = b - lr * b_grad
  \<close>
  Elementwise operations on two arrays are \<open>map2\<close>; the arrays of one batch have the same
  shape in the notebooks, and the theorems assume it.
\<close>

definition predict :: "real \<Rightarrow> real \<Rightarrow> real list \<Rightarrow> real list" where
  "predict a b x = map (\<lambda>xi. a + b * xi) x"

definition residual :: "real list \<Rightarrow> real list \<Rightarrow> real list" where
  "residual y yhat = map2 (\<lambda>yi hi. yi - hi) y yhat"

definition mse :: "real list \<Rightarrow> real" where
  "mse err = np_mean (map (\<lambda>e. e ^ 2) err)"

definition loss :: "real \<Rightarrow> real \<Rightarrow> real list \<Rightarrow> real list \<Rightarrow> real" where
  "loss a b x y = mse (residual y (predict a b x))"

definition a_grad :: "real \<Rightarrow> real \<Rightarrow> real list \<Rightarrow> real list \<Rightarrow> real" where
  "a_grad a b x y = - 2 * np_mean (residual y (predict a b x))"

definition b_grad :: "real \<Rightarrow> real \<Rightarrow> real list \<Rightarrow> real list \<Rightarrow> real" where
  "b_grad a b x y = - 2 * np_mean (map2 (\<lambda>xi e. xi * e) x (residual y (predict a b x)))"

definition gd_step :: "real \<Rightarrow> real list \<Rightarrow> real list \<Rightarrow> real \<times> real \<Rightarrow> real \<times> real" where
  "gd_step lr x y p =
     (case p of (a, b) \<Rightarrow> (a - lr * a_grad a b x y, b - lr * b_grad a b x y))"

fun gd_loop :: "nat \<Rightarrow> real \<Rightarrow> real list \<Rightarrow> real list \<Rightarrow> real \<times> real \<Rightarrow> real \<times> real" where
  "gd_loop 0 lr x y p = p"
| "gd_loop (Suc n) lr x y p = gd_loop n lr x y (gd_step lr x y p)"

section \<open>Floating-point rounding\<close>

text \<open>
  A binary floating-point format with \<open>p\<close> significant bits: \<open>fl p x\<close> is the number of the
  format nearest to \<open>x\<close>, a tie going to the even significand (the default rounding of
  IEEE 754, which NumPy and torch use). \<open>exponent x\<close> is the integer \<open>e\<close> with
  \<open>2\<^sup>e \<le> |x| < 2\<^sup>e\<^sup>+\<^sup>1\<close>, so the numbers of the format around \<open>x\<close> are the multiples of
  \<open>2\<^sup>e\<^sup>-\<^sup>p\<^sup>+\<^sup>1\<close>. The range of the exponent is not bounded: overflow and subnormal numbers
  are not modelled. \<open>float32\<close> has 24 significant bits and \<open>float64\<close> has 53; \<open>exact\<close> does
  not round.
\<close>

definition round_half_even :: "real \<Rightarrow> int" where
  "round_half_even z =
     (let f = \<lfloor>z\<rfloor>; d = z - of_int f
      in if d < 1 / 2 then f else if 1 / 2 < d then f + 1 else if even f then f else f + 1)"

definition exponent :: "real \<Rightarrow> int" where
  "exponent x =
     (if 1 \<le> \<bar>x\<bar> then int (floorlog 2 (nat \<lfloor>\<bar>x\<bar>\<rfloor>)) - 1
      else - int (floorlog 2 (nat (\<lceil>1 / \<bar>x\<bar>\<rceil> - 1))))"

definition pow2 :: "int \<Rightarrow> real" where
  "pow2 k = (if 0 \<le> k then 2 ^ nat k else 1 / 2 ^ nat (- k))"

definition fl :: "nat \<Rightarrow> real \<Rightarrow> real" where
  "fl p x =
     (if x = 0 then 0
      else let q = pow2 (exponent x - int p + 1) in of_int (round_half_even (x / q)) * q)"

definition float32 :: "real \<Rightarrow> real" where
  "float32 = fl 24"

definition float64 :: "real \<Rightarrow> real" where
  "float64 = fl 53"

definition exact :: "real \<Rightarrow> real" where
  "exact r = r"

text \<open>
  A sum and a mean in rounded arithmetic: the elements are added one after the other, and
  every addition and the final division are rounded. (The libraries add in other orders for
  long arrays; for up to two elements there is one order.)
\<close>

definition fl_sum :: "(real \<Rightarrow> real) \<Rightarrow> real list \<Rightarrow> real" where
  "fl_sum rnd v = foldl (\<lambda>s e. rnd (s + e)) 0 v"

definition fl_mean :: "(real \<Rightarrow> real) \<Rightarrow> real list \<Rightarrow> real" where
  "fl_mean rnd v = rnd (fl_sum rnd v / real (length v))"

text \<open>
  One iteration of the NumPy loop above with every operation rounded by \<open>rnd\<close>: the loop of
  the notebook is the instance \<open>rnd = float64\<close> (\<open>np.random.rand\<close> returns \<open>float64\<close> arrays),
  and the instance \<open>rnd = exact\<close> is \<open>gd_step\<close>. The learning rate and the data are taken
  to be numbers of the format.
\<close>

definition gd_step_fl ::
  "(real \<Rightarrow> real) \<Rightarrow> real \<Rightarrow> real list \<Rightarrow> real list \<Rightarrow> real \<times> real \<Rightarrow> real \<times> real" where
  "gd_step_fl rnd lr x y p =
     (case p of (a, b) \<Rightarrow>
        let yhat = map (\<lambda>xi. rnd (a + rnd (b * xi))) x;
            err = map2 (\<lambda>yi hi. rnd (yi - hi)) y yhat;
            a_grad = rnd (- 2 * fl_mean rnd err);
            b_grad = rnd (- 2 * fl_mean rnd (map2 (\<lambda>xi e. rnd (xi * e)) x err))
        in (rnd (a - rnd (lr * a_grad)), rnd (b - rnd (lr * b_grad))))"

section \<open>The same loop with autograd\<close>

text \<open>
  The loop of the second notebook that runs to the end (its third attempt):
  \<^verbatim>\<open>
  for epoch in range(n_epochs):
      yhat = a + b * x_train_tensor
      error = y_train_tensor - yhat
      loss = (error ** 2).mean()
      loss.backward()
      with torch.no_grad():
          a -= lr * a.grad
          b -= lr * b.grad
      a.grad.zero_()
      b.grad.zero_()
  \<close>
  The tensors are \<open>float32\<close> (\<open>torch.from_numpy(x_train).float()\<close>, \<open>dtype=torch.float\<close>).
  The autograd engine is library code. It is modelled as what it is: the forward lines
  record a graph of operations, and \<open>backward\<close> walks the graph from the loss to the leaves,
  handing each operand the gradient of the result times the derivative of the operation.
\<close>

text \<open>
  The graph of a tensor: leaves (the tensors \<open>a\<close> and \<open>b\<close> that require a gradient, by
  number), constants (the data), the elementwise operations with broadcasting, a power with
  a constant exponent, and the mean.
\<close>

datatype graph =
    Leaf nat
  | Const "real list"
  | Add graph graph
  | Sub graph graph
  | Mul graph graph
  | Pow graph nat
  | Mean graph

text \<open>
  An elementwise operation on two tensors: on tensors of one length elementwise, and a
  tensor with one element is broadcast along the other. (Other pairs of shapes raise an
  error in torch; the theorems assume that \<open>x\<close> and \<open>y\<close> have one length, and no such pair
  occurs.)
\<close>

definition broadcast :: "(real \<Rightarrow> real \<Rightarrow> real) \<Rightarrow> real list \<Rightarrow> real list \<Rightarrow> real list" where
  "broadcast f u v =
     (if length u = length v then map2 f u v
      else case u of [c] \<Rightarrow> map (f c) v
        | _ \<Rightarrow> (case v of [d] \<Rightarrow> map (\<lambda>s. f s d) u | _ \<Rightarrow> map2 f u v))"

text \<open>The forward pass: the value of a graph, every operation rounded by \<open>rnd\<close>.\<close>

fun graph_value :: "(real \<Rightarrow> real) \<Rightarrow> (nat \<Rightarrow> real list) \<Rightarrow> graph \<Rightarrow> real list" where
  "graph_value rnd env (Leaf i) = env i"
| "graph_value rnd env (Const c) = c"
| "graph_value rnd env (Add u v) =
     broadcast (\<lambda>s t. rnd (s + t)) (graph_value rnd env u) (graph_value rnd env v)"
| "graph_value rnd env (Sub u v) =
     broadcast (\<lambda>s t. rnd (s - t)) (graph_value rnd env u) (graph_value rnd env v)"
| "graph_value rnd env (Mul u v) =
     broadcast (\<lambda>s t. rnd (s * t)) (graph_value rnd env u) (graph_value rnd env v)"
| "graph_value rnd env (Pow u k) = map (\<lambda>s. rnd (s ^ k)) (graph_value rnd env u)"
| "graph_value rnd env (Mean u) = [fl_mean rnd (graph_value rnd env u)]"

text \<open>
  The gradient of a result is summed over the broadcast dimension before it reaches an
  operand with one element.
\<close>

definition sum_to_size :: "(real \<Rightarrow> real) \<Rightarrow> real list \<Rightarrow> real list \<Rightarrow> real list" where
  "sum_to_size rnd g v = (if length v = 1 then [fl_sum rnd g] else g)"

text \<open>
  The backward pass: \<open>backprop rnd env e g grads\<close> hands the gradient \<open>g\<close> of the value of
  \<open>e\<close> down to the leaves of \<open>e\<close> and adds what arrives there to \<open>grads\<close>. A sum passes \<open>g\<close>
  to both operands and a difference passes \<open>- g\<close> to the second; a product passes \<open>g\<close> times
  the other operand; the power \<open>u ** k\<close> passes \<open>g * (k * u ** (k - 1))\<close>; the mean passes
  \<open>g / n\<close> to each of its \<open>n\<close> elements.
\<close>

fun backprop ::
  "(real \<Rightarrow> real) \<Rightarrow> (nat \<Rightarrow> real list) \<Rightarrow> graph \<Rightarrow> real list \<Rightarrow>
     (nat \<Rightarrow> real list option) \<Rightarrow> (nat \<Rightarrow> real list option)" where
  "backprop rnd env (Leaf i) g grads =
     grads(i := Some (case grads i of None \<Rightarrow> g | Some g0 \<Rightarrow> map2 (\<lambda>s t. rnd (s + t)) g0 g))"
| "backprop rnd env (Const c) g grads = grads"
| "backprop rnd env (Add u v) g grads =
     backprop rnd env v (sum_to_size rnd g (graph_value rnd env v))
       (backprop rnd env u (sum_to_size rnd g (graph_value rnd env u)) grads)"
| "backprop rnd env (Sub u v) g grads =
     backprop rnd env v (sum_to_size rnd (map (\<lambda>s. - s) g) (graph_value rnd env v))
       (backprop rnd env u (sum_to_size rnd g (graph_value rnd env u)) grads)"
| "backprop rnd env (Mul u v) g grads =
     backprop rnd env v
       (sum_to_size rnd (broadcast (\<lambda>s t. rnd (s * t)) g (graph_value rnd env u))
          (graph_value rnd env v))
       (backprop rnd env u
          (sum_to_size rnd (broadcast (\<lambda>s t. rnd (s * t)) g (graph_value rnd env v))
             (graph_value rnd env u))
          grads)"
| "backprop rnd env (Pow u k) g grads =
     backprop rnd env u
       (map2 (\<lambda>s t. rnd (s * rnd (real k * rnd (t ^ (k - 1))))) g (graph_value rnd env u)) grads"
| "backprop rnd env (Mean u) g grads =
     (case g of [g0] \<Rightarrow>
        backprop rnd env u
          (map (\<lambda>_. rnd (g0 / real (length (graph_value rnd env u)))) (graph_value rnd env u)) grads
      | _ \<Rightarrow> grads)"

text \<open>
  A leaf tensor carries its value and its \<open>.grad\<close>, which is \<open>None\<close> until the first
  \<open>backward\<close>. \<open>loss_graph\<close> is the graph the three forward lines of the loop record, with
  \<open>a\<close> as leaf 0 and \<open>b\<close> as leaf 1.
\<close>

record leaf =
  data :: real
  grad :: "real option"

definition loss_graph :: "real list \<Rightarrow> real list \<Rightarrow> graph" where
  "loss_graph x y =
     (let yhat = Add (Leaf 0) (Mul (Leaf 1) (Const x));
          error = Sub (Const y) yhat
      in Mean (Pow error 2))"

text \<open>
  \<open>loss.backward()\<close>: the backward pass from the loss with the gradient 1, and what arrives
  at a leaf is added to what its \<open>.grad\<close> holds.
\<close>

definition accumulate_grad :: "(real \<Rightarrow> real) \<Rightarrow> leaf \<Rightarrow> real list option \<Rightarrow> leaf" where
  "accumulate_grad rnd t g =
     (case g of Some [g1] \<Rightarrow>
        t\<lparr>grad := Some (case grad t of None \<Rightarrow> g1 | Some g0 \<Rightarrow> rnd (g0 + g1))\<rparr>
      | _ \<Rightarrow> t)"

definition backward ::
  "(real \<Rightarrow> real) \<Rightarrow> real list \<Rightarrow> real list \<Rightarrow> leaf \<times> leaf \<Rightarrow> leaf \<times> leaf" where
  "backward rnd x y p =
     (case p of (a, b) \<Rightarrow>
        let env = (\<lambda>i. if i = 0 then [data a] else [data b]);
            grads = backprop rnd env (loss_graph x y) [1] (\<lambda>i. None)
        in (accumulate_grad rnd a (grads 0), accumulate_grad rnd b (grads 1)))"

text \<open>
  \<open>a -= lr * a.grad\<close> under \<open>no_grad\<close>, and \<open>a.grad.zero_()\<close>. Multiplying by a \<open>.grad\<close> that
  is \<open>None\<close> raises \<open>TypeError\<close>, as the second attempt of the notebook shows.
\<close>

definition sub_inplace :: "(real \<Rightarrow> real) \<Rightarrow> real \<Rightarrow> leaf \<Rightarrow> py_error + leaf" where
  "sub_inplace rnd lr t =
     (case grad t of None \<Rightarrow> Inl TypeError
      | Some g \<Rightarrow> Inr (t\<lparr>data := rnd (data t - rnd (lr * g))\<rparr>))"

definition grad_zero :: "leaf \<Rightarrow> py_error + leaf" where
  "grad_zero t = (case grad t of None \<Rightarrow> Inl AttributeError | Some g \<Rightarrow> Inr (t\<lparr>grad := Some 0\<rparr>))"

text \<open>
  One iteration of the autograd loop and the loop, in the arithmetic \<open>rnd\<close>; the loop of the
  notebook is the instance \<open>rnd = float32\<close>.
\<close>

definition autograd_step ::
  "(real \<Rightarrow> real) \<Rightarrow> real \<Rightarrow> real list \<Rightarrow> real list \<Rightarrow> leaf \<times> leaf \<Rightarrow> py_error + leaf \<times> leaf" where
  "autograd_step rnd lr x y p =
     (case backward rnd x y p of (a1, b1) \<Rightarrow>
      case sub_inplace rnd lr a1 of Inl e \<Rightarrow> Inl e | Inr a2 \<Rightarrow>
      case sub_inplace rnd lr b1 of Inl e \<Rightarrow> Inl e | Inr b2 \<Rightarrow>
      case grad_zero a2 of Inl e \<Rightarrow> Inl e | Inr a3 \<Rightarrow>
      case grad_zero b2 of Inl e \<Rightarrow> Inl e | Inr b3 \<Rightarrow> Inr (a3, b3))"

fun autograd_loop ::
  "(real \<Rightarrow> real) \<Rightarrow> nat \<Rightarrow> real \<Rightarrow> real list \<Rightarrow> real list \<Rightarrow> leaf \<times> leaf \<Rightarrow>
     py_error + leaf \<times> leaf" where
  "autograd_loop rnd 0 lr x y p = Inr p"
| "autograd_loop rnd (Suc n) lr x y p =
     (case autograd_step rnd lr x y p of Inl e \<Rightarrow> Inl e
      | Inr p' \<Rightarrow> autograd_loop rnd n lr x y p')"

text \<open>
  The state of the two \<open>.grad\<close> fields at the head of every iteration: \<open>None\<close> before the
  first one, zero afterwards. \<open>param_values\<close> reads the two parameters.
\<close>

definition grads_clear :: "leaf \<times> leaf \<Rightarrow> bool" where
  "grads_clear p = (case p of (a, b) \<Rightarrow>
     (grad a = None \<or> grad a = Some 0) \<and> (grad b = None \<or> grad b = Some 0))"

definition param_values :: "leaf \<times> leaf \<Rightarrow> real \<times> real" where
  "param_values p = (case p of (a, b) \<Rightarrow> (data a, data b))"

section \<open>Random source, data generation and the index split\<close>

text \<open>
  NumPy's global generator is threaded through the model as a state of type \<open>'g\<close>. Its
  primitives are library code and a parameter of the model: \<open>seed_state\<close> is the state
  \<open>np.random.seed\<close> installs, \<open>next_double\<close>, \<open>next_gauss\<close> and \<open>next_raw\<close> draw one uniform
  number, one normal number and one raw integer and return the next state.
\<close>

record 'g rng =
  seed_state :: "nat \<Rightarrow> 'g"
  next_double :: "'g \<Rightarrow> real \<times> 'g"
  next_gauss :: "'g \<Rightarrow> real \<times> 'g"
  next_raw :: "'g \<Rightarrow> nat \<times> 'g"

text \<open>
  A small concrete generator (a linear congruence modulo 16), used to run the model on
  concrete inputs.
\<close>

definition lcg :: "nat rng" where
  "lcg = \<lparr>seed_state = (\<lambda>s. s mod 16),
          next_double = (\<lambda>g. (real (g mod 16) / 16, (5 * g + 3) mod 16)),
          next_gauss = (\<lambda>g. (real (g mod 16) / 8 - 1, (5 * g + 3) mod 16)),
          next_raw = (\<lambda>g. (g, (5 * g + 3) mod 16))\<rparr>"

text \<open>\<open>np.random.rand(n, 1)\<close> and \<open>np.random.randn(n, 1)\<close>: \<open>n\<close> draws in a row.\<close>

fun draws :: "('g \<Rightarrow> 'a \<times> 'g) \<Rightarrow> nat \<Rightarrow> 'g \<Rightarrow> 'a list \<times> 'g" where
  "draws f 0 g = ([], g)"
| "draws f (Suc n) g =
     (case f g of (v, g1) \<Rightarrow> case draws f n g1 of (vs, g2) \<Rightarrow> (v # vs, g2))"

text \<open>
  The data cell, with its constants as arguments; \<open>g0\<close> is the state of the generator
  before the cell runs, which \<open>np.random.seed\<close> overwrites.
  \<^verbatim>\<open>
  np.random.seed(42)
  x = np.random.rand(100, 1)
  y = 1 + 2 * x + .1 * np.random.randn(100, 1)
  \<close>
\<close>

definition generate ::
  "'g rng \<Rightarrow> nat \<Rightarrow> nat \<Rightarrow> real \<Rightarrow> real \<Rightarrow> real \<Rightarrow> 'g \<Rightarrow> (real list \<times> real list) \<times> 'g" where
  "generate R seed n true_intercept true_slope noise_std g0 =
     (let g1 = seed_state R seed in
      case draws (next_double R) n g1 of (x, g2) \<Rightarrow>
      case draws (next_gauss R) n g2 of (noise, g3) \<Rightarrow>
        ((x, map2 (\<lambda>xi ei. true_intercept + true_slope * xi + noise_std * ei) x noise), g3))"

text \<open>
  \<open>np.random.shuffle(idx)\<close> is the Fisher-Yates loop of NumPy's generator: for \<open>i\<close> from
  \<open>n - 1\<close> down to \<open>1\<close> it draws \<open>j\<close> in \<open>[0, i]\<close> and swaps the entries \<open>i\<close> and \<open>j\<close>. The
  bounded draw is a raw draw reduced modulo \<open>i + 1\<close>.
\<close>

definition random_interval :: "'g rng \<Rightarrow> nat \<Rightarrow> 'g \<Rightarrow> nat \<times> 'g" where
  "random_interval R mx g = (case next_raw R g of (r, g') \<Rightarrow> (r mod (mx + 1), g'))"

definition swap_items :: "nat \<Rightarrow> nat \<Rightarrow> 'a list \<Rightarrow> 'a list" where
  "swap_items i j xs = xs[i := xs ! j, j := xs ! i]"

fun shuffle_loop :: "'g rng \<Rightarrow> nat \<Rightarrow> 'a list \<Rightarrow> 'g \<Rightarrow> 'a list \<times> 'g" where
  "shuffle_loop R 0 xs g = (xs, g)"
| "shuffle_loop R (Suc k) xs g =
     (case random_interval R (Suc k) g of (j, g') \<Rightarrow> shuffle_loop R k (swap_items (Suc k) j xs) g')"

definition shuffle :: "'g rng \<Rightarrow> 'a list \<Rightarrow> 'g \<Rightarrow> 'a list \<times> 'g" where
  "shuffle R xs g = shuffle_loop R (length xs - 1) xs g"

text \<open>
  Python's slices \<open>idx[:k]\<close> and \<open>idx[k:]\<close>: a negative \<open>k\<close> counts from the end, and the
  position is clamped to the length, so neither slice raises.
\<close>

definition slice_bound :: "int \<Rightarrow> nat \<Rightarrow> nat" where
  "slice_bound k n = (if k < 0 then nat (max 0 (int n + k)) else min (nat k) n)"

definition slice_to :: "int \<Rightarrow> 'a list \<Rightarrow> 'a list" where
  "slice_to k xs = take (slice_bound k (length xs)) xs"

definition slice_from :: "int \<Rightarrow> 'a list \<Rightarrow> 'a list" where
  "slice_from k xs = drop (slice_bound k (length xs)) xs"

text \<open>
  The split of the data cell, with the size \<open>n\<close> and the position \<open>k\<close> as arguments:
  \<^verbatim>\<open>
  idx = np.arange(100)
  np.random.shuffle(idx)
  train_idx = idx[:80]
  val_idx = idx[80:]
  \<close>
\<close>

definition shuffle_split :: "'g rng \<Rightarrow> nat \<Rightarrow> int \<Rightarrow> 'g \<Rightarrow> (nat list \<times> nat list) \<times> 'g" where
  "shuffle_split R n k g =
     (case shuffle R [0..<n] g of (idx, g') \<Rightarrow> ((slice_to k idx, slice_from k idx), g'))"

text \<open>
  \<open>x[train_idx]\<close>: indexing an array by an array of indices, which raises \<open>IndexError\<close> on an
  index out of bounds.
\<close>

definition take_rows :: "'a list \<Rightarrow> nat list \<Rightarrow> py_error + 'a list" where
  "take_rows x idx =
     (if list_all (\<lambda>i. i < length x) idx then Inr (map (\<lambda>i. x ! i) idx) else Inl IndexError)"

text \<open>The variables the data cell leaves behind, and the whole cell.\<close>

record dataset_cell =
  d_x_train :: "real list"
  d_y_train :: "real list"
  d_x_val :: "real list"
  d_y_val :: "real list"
  d_train_idx :: "nat list"
  d_val_idx :: "nat list"

definition generate_data :: "'g rng \<Rightarrow> 'g \<Rightarrow> py_error + dataset_cell \<times> 'g" where
  "generate_data R g0 =
     (case generate R 42 100 1 2 (1 / 10) g0 of ((x, y), g1) \<Rightarrow>
      case shuffle_split R 100 80 g1 of ((tr, va), g2) \<Rightarrow>
      case take_rows x tr of Inl e \<Rightarrow> Inl e | Inr xt \<Rightarrow>
      case take_rows y tr of Inl e \<Rightarrow> Inl e | Inr yt \<Rightarrow>
      case take_rows x va of Inl e \<Rightarrow> Inl e | Inr xv \<Rightarrow>
      case take_rows y va of Inl e \<Rightarrow> Inl e | Inr yv \<Rightarrow>
        Inr (\<lparr>d_x_train = xt, d_y_train = yt, d_x_val = xv, d_y_val = yv,
              d_train_idx = tr, d_val_idx = va\<rparr>, g2))"

text \<open>
  Modelled from the spec: the random split policy of the Splitter (section 4.2), a split by
  a permutation of \<open>[0, N)\<close> drawn from the random source. The notebook calls
  \<open>random_split(dataset, [80, 20])\<close> of \<open>torch.utils.data\<close>, whose code is not in the
  repository; \<open>randperm\<close> is the permutation it draws, here with the shuffle above.
\<close>

definition randperm :: "'g rng \<Rightarrow> nat \<Rightarrow> 'g \<Rightarrow> nat list \<times> 'g" where
  "randperm R n g = shuffle R [0..<n] g"

text \<open>
  Modelled from the spec: the running sums of the requested sizes (the library's
  \<open>_accumulate(lengths)\<close>), the offsets at which the random split cuts the permutation.
\<close>

fun accumulate_from :: "nat \<Rightarrow> nat list \<Rightarrow> nat list" where
  "accumulate_from acc [] = []"
| "accumulate_from acc (l # ls) = (acc + l) # accumulate_from (acc + l) ls"

text \<open>
  Modelled from the spec: the slice \<open>indices[lo:hi]\<close> of the permutation that makes one
  subset of the random split, for bounds that are not negative.
\<close>

definition slice :: "nat \<Rightarrow> nat \<Rightarrow> 'a list \<Rightarrow> 'a list" where
  "slice lo hi xs = drop lo (take hi xs)"

text \<open>
  Modelled from the spec: the random split itself. As in the library, the sizes must sum to
  the size of the dataset (the library raises \<open>ValueError\<close> otherwise, the spec's
  InvalidArgument), and the subsets are the consecutive slices
  \<open>indices[offset - length : offset]\<close> of the permutation. A subset is given by its list of
  indices.
\<close>

definition random_split ::
  "'g rng \<Rightarrow> nat \<Rightarrow> nat list \<Rightarrow> 'g \<Rightarrow> py_error + nat list list \<times> 'g" where
  "random_split R n lengths g =
     (if sum_list lengths \<noteq> n then Inl InvalidArgument
      else case randperm R (sum_list lengths) g of (indices, g') \<Rightarrow>
        Inr (map (\<lambda>(offset, len). slice (offset - len) offset indices)
               (zip (accumulate_from 0 lengths) lengths), g'))"

section \<open>Datasets\<close>

text \<open>
  \<open>t[index]\<close> on the first dimension of a tensor: an index in \<open>[-n, 0)\<close> counts from the
  end, and an index outside \<open>[-n, n)\<close> raises \<open>IndexError\<close>.
\<close>

definition tensor_index :: "'a list \<Rightarrow> int \<Rightarrow> py_error + 'a" where
  "tensor_index t index =
     (if 0 \<le> index \<and> index < int (length t) then Inr (t ! nat index)
      else if - int (length t) \<le> index \<and> index < 0 then Inr (t ! nat (int (length t) + index))
      else Inl IndexError)"

text \<open>
  The class of the notebook:
  \<^verbatim>\<open>
  class CustomDataset(Dataset):
      def __init__(self, x_tensor, y_tensor):
          self.x = x_tensor
          self.y = y_tensor
      def __getitem__(self, index):
          return (self.x[index], self.y[index])
      def __len__(self):
          return len(self.x)
  \<close>
\<close>

record 'a custom_dataset =
  cd_x :: "'a list"
  cd_y :: "'a list"

definition CustomDataset :: "'a list \<Rightarrow> 'a list \<Rightarrow> 'a custom_dataset" where
  "CustomDataset x_tensor y_tensor = \<lparr>cd_x = x_tensor, cd_y = y_tensor\<rparr>"

definition custom_getitem :: "'a custom_dataset \<Rightarrow> int \<Rightarrow> py_error + 'a \<times> 'a" where
  "custom_getitem ds index =
     (case tensor_index (cd_x ds) index of Inl e \<Rightarrow> Inl e | Inr xi \<Rightarrow>
      case tensor_index (cd_y ds) index of Inl e \<Rightarrow> Inl e | Inr yi \<Rightarrow> Inr (xi, yi))"

definition custom_len :: "'a custom_dataset \<Rightarrow> nat" where
  "custom_len ds = length (cd_x ds)"

text \<open>
  \<open>TensorDataset\<close> is a class of the library; the notebook builds it from the same two
  tensors. Its constructor asserts that the tensors have the same first dimension, its
  \<open>__getitem__\<close> returns the tuple of \<open>tensor[index]\<close> over its tensors, and its \<open>__len__\<close> is
  the first dimension of the first tensor.
\<close>

record 'a tensor_dataset =
  tensors :: "'a list \<times> 'a list"

definition TensorDataset :: "'a list \<Rightarrow> 'a list \<Rightarrow> py_error + 'a tensor_dataset" where
  "TensorDataset x_tensor y_tensor =
     (if length x_tensor = length y_tensor then Inr \<lparr>tensors = (x_tensor, y_tensor)\<rparr>
      else Inl AssertionError)"

definition tensor_getitem :: "'a tensor_dataset \<Rightarrow> int \<Rightarrow> py_error + 'a \<times> 'a" where
  "tensor_getitem ds index =
     (case tensor_index (fst (tensors ds)) index of Inl e \<Rightarrow> Inl e | Inr xi \<Rightarrow>
      case tensor_index (snd (tensors ds)) index of Inl e \<Rightarrow> Inl e | Inr yi \<Rightarrow> Inr (xi, yi))"

definition tensor_len :: "'a tensor_dataset \<Rightarrow> nat" where
  "tensor_len ds = length (fst (tensors ds))"

section \<open>Mini-batches\<close>

text \<open>
  The Batcher of the spec, \<open>iterate(dataset, indices, batch_size, shuffle, seed)\<close>, is in
  the notebooks the library's loader, \<open>DataLoader(dataset=train_data, batch_size=16,
  shuffle=True)\<close>, and the code of \<open>DataLoader\<close> is not in the repository. The definitions of
  this section model it from the spec and follow the library where the spec leaves the
  algorithm open. The seed of the spec is the state of the random source, which one pass
  takes and returns.
\<close>

text \<open>
  Modelled from the spec: cutting an order of indices into batches of \<open>batch_size\<close>, the
  last one shorter when the size does not divide the length. This is the loop of the
  library's batch sampler, started with the empty batch:
  \<^verbatim>\<open>
  batch = []
  for idx in self.sampler:
      batch.append(idx)
      if len(batch) == self.batch_size:
          yield batch
          batch = []
  if len(batch) > 0 and not self.drop_last:
      yield batch
  \<close>
\<close>

fun batch_sampler :: "nat \<Rightarrow> 'a list \<Rightarrow> 'a list \<Rightarrow> 'a list list" where
  "batch_sampler batch_size [] batch = (if length batch > 0 then [batch] else [])"
| "batch_sampler batch_size (idx # rest) batch =
     (let batch' = batch @ [idx]
      in if length batch' = batch_size then batch' # batch_sampler batch_size rest []
         else batch_sampler batch_size rest batch')"

text \<open>
  Modelled from the spec: the order of one pass. With \<open>shuffle\<close> the positions of the index
  list are permuted afresh (position \<open>p\<close> stands for \<open>indices[p]\<close>, as in a subset of a
  dataset); without it the order of the index list is kept.
\<close>

definition sampler :: "'g rng \<Rightarrow> nat list \<Rightarrow> bool \<Rightarrow> 'g \<Rightarrow> nat list \<times> 'g" where
  "sampler R indices shuffled g =
     (if shuffled
      then case randperm R (length indices) g of (perm, g') \<Rightarrow> (map (\<lambda>p. indices ! p) perm, g')
      else (indices, g))"

text \<open>
  Modelled from the spec: the loader and its constructor, which fails with InvalidArgument
  when \<open>batch_size <= 0\<close> (the library raises \<open>ValueError\<close> there).
\<close>

record data_loader =
  dl_indices :: "nat list"
  dl_batch_size :: nat
  dl_shuffle :: bool

definition DataLoader :: "nat list \<Rightarrow> int \<Rightarrow> bool \<Rightarrow> py_error + data_loader" where
  "DataLoader indices batch_size shuffled =
     (if batch_size \<le> 0 then Inl InvalidArgument
      else Inr \<lparr>dl_indices = indices, dl_batch_size = nat batch_size, dl_shuffle = shuffled\<rparr>)"

text \<open>
  Modelled from the spec: one pass over a loader (\<open>for ... in train_loader\<close>): the order of
  the sampler, cut into batches. No cursor is kept between passes.
\<close>

definition loader_iter :: "'g rng \<Rightarrow> data_loader \<Rightarrow> 'g \<Rightarrow> nat list list \<times> 'g" where
  "loader_iter R dl g =
     (case sampler R (dl_indices dl) (dl_shuffle dl) g of (order, g') \<Rightarrow>
        (batch_sampler (dl_batch_size dl) order [], g'))"

text \<open>
  Modelled from the spec: the contract \<open>iterate\<close> of the Batcher, construction of the loader
  followed by one pass.
\<close>

definition iterate ::
  "'g rng \<Rightarrow> nat list \<Rightarrow> int \<Rightarrow> bool \<Rightarrow> 'g \<Rightarrow> py_error + nat list list \<times> 'g" where
  "iterate R indices batch_size shuffled g =
     (case DataLoader indices batch_size shuffled of Inl e \<Rightarrow> Inl e
      | Inr dl \<Rightarrow> Inr (loader_iter R dl g))"

section \<open>Training and validation loops\<close>

text \<open>
  The model is \<open>nn.Sequential(nn.Linear(1, 1))\<close>: a weight, a bias and the mode flag that
  \<open>model.train()\<close> and \<open>model.eval()\<close> set. The state of the last notebook's loop is the model
  and the two lists of losses.
\<close>

record linear_model =
  weight :: real
  bias :: real
  training :: bool

record train_state =
  model :: linear_model
  losses :: "real list"
  val_losses :: "real list"

text \<open>
  The loader hands over a batch as the two tensors of its samples; a dataset is the list of
  its samples \<open>(x, y)\<close>, and an index out of bounds raises \<open>IndexError\<close>.
\<close>

definition fetch :: "(real \<times> real) list \<Rightarrow> nat list \<Rightarrow> py_error + real list \<times> real list" where
  "fetch ds batch =
     (if list_all (\<lambda>i. i < length ds) batch
      then Inr (map (\<lambda>i. fst (ds ! i)) batch, map (\<lambda>i. snd (ds ! i)) batch)
      else Inl IndexError)"

text \<open>
  Modelled from the spec: one optimisation step of the Trainer (EpochTrain, section 4.4). The
  notebook imports it, \<open>from train_step import make_train_step\<close>, and the file
  \<open>train_step.py\<close> is not among the sources. The step computes the predictions, the loss and
  the two gradients on the batch, updates both parameters with the learning rate and returns
  the loss. It also sets the training mode, the counterpart of \<open>model.eval()\<close> that the text
  of the notebook mentions. The loops below take the step as a parameter.
\<close>

definition train_step :: "real \<Rightarrow> real list \<Rightarrow> real list \<Rightarrow> linear_model \<Rightarrow> real \<times> linear_model" where
  "train_step lr x y m =
     (let a = bias m; b = weight m
      in (loss a b x y,
          m\<lparr>bias := a - lr * a_grad a b x y, weight := b - lr * b_grad a b x y,
            training := True\<rparr>))"

text \<open>
  The training phase of one epoch:
  \<^verbatim>\<open>
  for x_batch, y_batch in train_loader:
      x_batch = x_batch.to(device)
      y_batch = y_batch.to(device)
      loss = train_step(x_batch, y_batch)
      losses.append(loss)
  \<close>
\<close>

fun train_batches ::
  "(real list \<Rightarrow> real list \<Rightarrow> linear_model \<Rightarrow> real \<times> linear_model) \<Rightarrow> (real \<times> real) list \<Rightarrow>
     nat list list \<Rightarrow> train_state \<Rightarrow> py_error + train_state" where
  "train_batches step ds [] st = Inr st"
| "train_batches step ds (batch # rest) st =
     (case fetch ds batch of Inl e \<Rightarrow> Inl e | Inr (x_batch, y_batch) \<Rightarrow>
      case step x_batch y_batch (model st) of (l, m') \<Rightarrow>
        train_batches step ds rest (st\<lparr>model := m', losses := losses st @ [l]\<rparr>))"

definition epoch_train ::
  "(real list \<Rightarrow> real list \<Rightarrow> linear_model \<Rightarrow> real \<times> linear_model) \<Rightarrow> 'g rng \<Rightarrow>
     (real \<times> real) list \<Rightarrow> nat list \<Rightarrow> int \<Rightarrow> bool \<Rightarrow> train_state \<times> 'g \<Rightarrow>
     py_error + train_state \<times> 'g" where
  "epoch_train step R ds indices batch_size shuffled sg =
     (case sg of (st, g) \<Rightarrow>
      case iterate R indices batch_size shuffled g of Inl e \<Rightarrow> Inl e | Inr (batches, g') \<Rightarrow>
      case train_batches step ds batches st of Inl e \<Rightarrow> Inl e | Inr st' \<Rightarrow> Inr (st', g'))"

text \<open>
  The validation phase of one epoch, over the batches one pass of \<open>val_loader\<close> yields (the
  loader does not shuffle, so every pass yields the same batches):
  \<^verbatim>\<open>
  with torch.no_grad():
      for x_val, y_val in val_loader:
          x_val = x_val.to(device)
          y_val = y_val.to(device)
          model.eval()
          yhat = model(x_val)
          val_loss = loss_fn(y_val, yhat)
          val_losses.append(val_loss.item())
  \<close>
  \<open>forward\<close> is the linear layer and \<open>mse_loss\<close> is \<open>nn.MSELoss(reduction='mean')\<close>.
\<close>

definition forward :: "linear_model \<Rightarrow> real list \<Rightarrow> real list" where
  "forward m x = map (\<lambda>xi. weight m * xi + bias m) x"

definition mse_loss :: "real list \<Rightarrow> real list \<Rightarrow> real" where
  "mse_loss inp target = np_mean (map2 (\<lambda>i t. (i - t) ^ 2) inp target)"

fun epoch_validate :: "(real list \<times> real list) list \<Rightarrow> train_state \<Rightarrow> train_state" where
  "epoch_validate [] st = st"
| "epoch_validate ((x_val, y_val) # rest) st =
     (let m = (model st)\<lparr>training := False\<rparr>;
          yhat = forward m x_val;
          val_loss = mse_loss y_val yhat
      in epoch_validate rest (st\<lparr>model := m, val_losses := val_losses st @ [val_loss]\<rparr>))"

section \<open>Gradients and the two gradient-descent loops\<close>

lemma sum_sq_deriv_a:
  "((\<lambda>a. sum_list (map (\<lambda>(yi, xi). (yi - (a + b * xi)) ^ 2) ps)) has_real_derivative
     sum_list (map (\<lambda>(yi, xi). - 2 * (yi - (a + b * xi))) ps)) (at a)"
proof (induction ps)
  case Nil
  show ?case by simp
next
  case (Cons p ps)
  obtain yi xi where p: "p = (yi, xi)" by (cases p)
  show ?case unfolding p list.map sum_list.Cons prod.case
    by (rule derivative_eq_intros Cons.IH refl | simp)+
qed

lemma sum_sq_deriv_b:
  "((\<lambda>b. sum_list (map (\<lambda>(yi, xi). (yi - (a + b * xi)) ^ 2) ps)) has_real_derivative
     sum_list (map (\<lambda>(yi, xi). - 2 * (xi * (yi - (a + b * xi)))) ps)) (at b)"
proof (induction ps)
  case Nil
  show ?case by simp
next
  case (Cons p ps)
  obtain yi xi where p: "p = (yi, xi)" by (cases p)
  show ?case unfolding p list.map sum_list.Cons prod.case
    by (rule derivative_eq_intros Cons.IH refl | simp)+
qed

lemma residual_predict:
  "residual y (predict a b x) = map (\<lambda>(yi, xi). yi - (a + b * xi)) (zip y x)"
  by (simp add: residual_def predict_def zip_map2 case_prod_unfold)

lemma map2_over_zip:
  "length x = length y \<Longrightarrow>
   map2 f x (map g (zip y x)) = map (\<lambda>(yi, xi). f xi (g (yi, xi))) (zip y x)"
  by (induction x y rule: list_induct2) simp_all

lemma sum_list_neg2:
  "sum_list (map (\<lambda>(yi, xi). - 2 * f yi xi) ps) =
     - 2 * sum_list (map (\<lambda>(yi, xi). (f yi xi :: real)) ps)"
  by (induction ps) (auto simp: algebra_simps)

lemma loss_as_sum:
  "loss a b x y =
     sum_list (map (\<lambda>(yi, xi). (yi - (a + b * xi)) ^ 2) (zip y x)) / real (length (zip y x))"
  by (simp add: loss_def mse_def np_mean_def residual_predict case_prod_unfold comp_def)

lemma a_grad_as_sum:
  "a_grad a b x y =
     sum_list (map (\<lambda>(yi, xi). - 2 * (yi - (a + b * xi))) (zip y x)) / real (length (zip y x))"
  unfolding a_grad_def np_mean_def residual_predict sum_list_neg2 by simp

lemma b_grad_as_sum:
  assumes "length x = length y"
  shows "b_grad a b x y =
     sum_list (map (\<lambda>(yi, xi). - 2 * (xi * (yi - (a + b * xi)))) (zip y x)) / real (length (zip y x))"
  unfolding b_grad_def np_mean_def residual_predict map2_over_zip [OF assms] prod.case sum_list_neg2
  by simp

text \<open>
  Claim C1. For every non-empty batch (arrays \<open>x\<close> and \<open>y\<close> of one length) and every
  parameter pair, the gradients the NumPy loop computes, \<open>a_grad = -2 * error.mean()\<close> and
  \<open>b_grad = -2 * (x * error).mean()\<close>, are the partial derivatives of the batch loss
  \<open>mean((y - (a + b * x))\<^sup>2)\<close> with respect to \<open>a\<close> and to \<open>b\<close>.
\<close>

theorem analytic_gradients_are_partial_derivatives:
  assumes "length x = length y" and "x \<noteq> []"
  shows "((\<lambda>a'. loss a' b x y) has_real_derivative a_grad a b x y) (at a) \<and>
         ((\<lambda>b'. loss a b' x y) has_real_derivative b_grad a b x y) (at b)"
proof
  show "((\<lambda>a'. loss a' b x y) has_real_derivative a_grad a b x y) (at a)"
    unfolding loss_as_sum a_grad_as_sum
    by (rule DERIV_cdivide [OF sum_sq_deriv_a])
  show "((\<lambda>b'. loss a b' x y) has_real_derivative b_grad a b x y) (at b)"
    unfolding loss_as_sum b_grad_as_sum [OF assms(1)]
    by (rule DERIV_cdivide [OF sum_sq_deriv_b])
qed

theorem analytic_gradients_witness:
  "length [1, 2 :: real] = length [3, 5 :: real] \<and> [1, 2 :: real] \<noteq> [] \<and>
   ((\<lambda>a'. loss a' 1 [1, 2] [3, 5]) has_real_derivative a_grad 0 1 [1, 2] [3, 5]) (at 0) \<and>
   ((\<lambda>b'. loss 0 b' [1, 2] [3, 5]) has_real_derivative b_grad 0 1 [1, 2] [3, 5]) (at 1) \<and>
   a_grad 0 1 [1, 2] [3, 5] = - 5 \<and> b_grad 0 1 [1, 2] [3, 5] = - 8"
  using analytic_gradients_are_partial_derivatives [of "[1, 2]" "[3, 5]" 1 0]
  by (simp add: a_grad_def b_grad_def np_mean_def residual_def predict_def)

subsection \<open>Rounding\<close>

lemma pow2_pos: "0 < pow2 k"
  by (simp add: pow2_def)

lemma pow2_neg_nat: "pow2 (- int n) = 1 / 2 ^ n"
  by (cases "n = 0") (simp_all add: pow2_def)

lemma pow2_add: "pow2 (j + k) = pow2 j * pow2 k"
proof -
  have "pow2 k = 2 powr (real_of_int k)" for k
    by (simp add: pow2_def powr_realpow [symmetric] powr_minus_divide)
  then show ?thesis by (simp add: powr_add)
qed

lemma exponent_lower: "x \<noteq> 0 \<Longrightarrow> pow2 (exponent x) \<le> \<bar>x\<bar>"
proof (cases "1 \<le> \<bar>x\<bar>")
  case True
  let ?n = "nat \<lfloor>\<bar>x\<bar>\<rfloor>"
  have n: "0 < ?n" using True by simp
  have "2 ^ (floorlog 2 ?n - 1) \<le> ?n" using floorlog_bounds [of ?n 2] n by simp
  then have "(2::real) ^ (floorlog 2 ?n - 1) \<le> real ?n"
    by (metis of_nat_le_iff of_nat_numeral of_nat_power)
  also have "real ?n \<le> \<bar>x\<bar>" using True by (simp add: of_nat_nat)
  finally have b: "(2::real) ^ (floorlog 2 ?n - 1) \<le> \<bar>x\<bar>" .
  have f: "0 < floorlog 2 ?n" using n by (simp add: floorlog_def)
  have "exponent x = int (floorlog 2 ?n - 1)" using True f by (simp add: exponent_def of_nat_diff)
  then show ?thesis using b by (simp add: pow2_def)
next
  case False
  assume x: "x \<noteq> 0"
  let ?c = "\<lceil>1 / \<bar>x\<bar>\<rceil>"
  let ?m = "nat (?c - 1)"
  let ?L = "floorlog 2 ?m"
  have r: "1 < 1 / \<bar>x\<bar>" using False x by simp
  then have c: "2 \<le> ?c" by (simp add: le_ceiling_iff)
  then have m: "0 < ?m" by simp
  have "?m < 2 ^ ?L" using floorlog_bounds [of ?m 2] m by simp
  then have "int ?m < 2 ^ ?L" by (metis of_nat_less_iff of_nat_numeral of_nat_power)
  moreover have "int ?m = ?c - 1"
  proof -
    have "0 \<le> ?c - 1" using c by linarith
    then show ?thesis by (rule nat_0_le)
  qed
  ultimately have "?c - 1 < 2 ^ ?L" by (simp only:)
  then have "?c \<le> 2 ^ ?L" by linarith
  then have "real_of_int ?c \<le> 2 ^ ?L" by (metis of_int_le_iff of_int_numeral of_int_power)
  moreover have "1 / \<bar>x\<bar> \<le> real_of_int ?c" by (rule le_of_int_ceiling)
  ultimately have "1 / \<bar>x\<bar> \<le> 2 ^ ?L" by linarith
  then have "1 / 2 ^ ?L \<le> \<bar>x\<bar>" using x by (simp add: field_simps)
  moreover have "0 < ?L" using m by (simp add: floorlog_def)
  ultimately show ?thesis using False by (simp add: exponent_def pow2_def)
qed

lemma exponent_upper: "x \<noteq> 0 \<Longrightarrow> \<bar>x\<bar> < pow2 (exponent x + 1)"
proof (cases "1 \<le> \<bar>x\<bar>")
  case True
  let ?n = "nat \<lfloor>\<bar>x\<bar>\<rfloor>"
  have n: "0 < ?n" using True by simp
  have "?n < 2 ^ floorlog 2 ?n" using floorlog_bounds [of ?n 2] n by simp
  then have "Suc ?n \<le> 2 ^ floorlog 2 ?n" by (rule Suc_leI)
  then have "real (Suc ?n) \<le> 2 ^ floorlog 2 ?n"
    by (metis of_nat_le_iff of_nat_numeral of_nat_power)
  moreover have "\<bar>x\<bar> < real (Suc ?n)"
  proof -
    have a: "real ?n = real_of_int \<lfloor>\<bar>x\<bar>\<rfloor>" using True by (simp add: of_nat_nat)
    have b: "\<bar>x\<bar> < real_of_int \<lfloor>\<bar>x\<bar>\<rfloor> + 1" by linarith
    have "real (Suc ?n) = real ?n + 1" by simp
    with a b show ?thesis by linarith
  qed
  ultimately have b: "\<bar>x\<bar> < 2 ^ floorlog 2 ?n" by simp
  have f: "0 < floorlog 2 ?n" using n by (simp add: floorlog_def)
  have "exponent x + 1 = int (floorlog 2 ?n)" using True f by (simp add: exponent_def)
  then show ?thesis using b by (simp add: pow2_def)
next
  case False
  assume x: "x \<noteq> 0"
  let ?c = "\<lceil>1 / \<bar>x\<bar>\<rceil>"
  let ?m = "nat (?c - 1)"
  let ?L = "floorlog 2 ?m"
  have r: "1 < 1 / \<bar>x\<bar>" using False x by simp
  then have c: "2 \<le> ?c" by (simp add: le_ceiling_iff)
  then have m: "0 < ?m" by simp
  have L: "0 < ?L" using m by (simp add: floorlog_def)
  have "2 ^ (?L - 1) \<le> ?m" using floorlog_bounds [of ?m 2] m by simp
  then have "(2::real) ^ (?L - 1) \<le> real ?m"
    by (metis of_nat_le_iff of_nat_numeral of_nat_power)
  also have "real ?m = real_of_int ?c - 1"
  proof -
    have "0 \<le> ?c - 1" using c by linarith
    then have "real (nat (?c - 1)) = real_of_int (?c - 1)" by (rule of_nat_nat)
    then show ?thesis by (simp only: of_int_diff of_int_1)
  qed
  also have "real_of_int ?c - 1 < 1 / \<bar>x\<bar>" by linarith
  finally have "(2::real) ^ (?L - 1) < 1 / \<bar>x\<bar>" .
  then have b: "\<bar>x\<bar> < 1 / 2 ^ (?L - 1)" using x by (simp add: field_simps)
  have e: "exponent x + 1 = - int (?L - 1)" using False L by (simp add: exponent_def of_nat_diff)
  show ?thesis using b unfolding e by (simp only: pow2_neg_nat)
qed

lemma round_half_even_int: "round_half_even (of_int m) = m"
  by (simp add: round_half_even_def Let_def)

lemma round_half_even_error: "\<bar>real_of_int (round_half_even z) - z\<bar> \<le> 1 / 2"
proof -
  have "of_int \<lfloor>z\<rfloor> \<le> z" "z < of_int \<lfloor>z\<rfloor> + 1" by linarith+
  then show ?thesis by (auto simp: round_half_even_def Let_def)
qed

lemma fl_error:
  "\<bar>fl p x - x\<bar> \<le> pow2 (exponent x - int p + 1) / 2"
proof (cases "x = 0")
  case True
  then show ?thesis using pow2_pos [of "exponent x - int p + 1"] by (simp add: fl_def)
next
  case False
  let ?q = "pow2 (exponent x - int p + 1)"
  have q: "0 < ?q" by (rule pow2_pos)
  have "fl p x - x = (real_of_int (round_half_even (x / ?q)) - x / ?q) * ?q"
    using False q by (simp add: fl_def Let_def field_simps)
  then have "\<bar>fl p x - x\<bar> = \<bar>real_of_int (round_half_even (x / ?q)) - x / ?q\<bar> * ?q"
    using q by (simp add: abs_mult)
  also have "\<dots> \<le> (1 / 2) * ?q"
    using round_half_even_error [of "x / ?q"] q by (intro mult_right_mono) simp_all
  finally show ?thesis by simp
qed

lemma fl_dyadic:
  assumes "x = real_of_int m / 2 ^ k" and "\<bar>m\<bar> < 2 ^ p"
  shows "fl p x = x"
proof (cases "x = 0")
  case True
  then show ?thesis by (simp add: fl_def)
next
  case False
  let ?e = "exponent x"
  let ?q = "pow2 (?e - int p + 1)"
  have "pow2 ?e \<le> \<bar>x\<bar>" using False by (rule exponent_lower)
  also have "\<bar>x\<bar> = real_of_int \<bar>m\<bar> / 2 ^ k" using assms(1) by (simp add: abs_divide)
  also have "\<dots> < 2 ^ p / 2 ^ k"
  proof -
    have "real_of_int \<bar>m\<bar> < 2 ^ p" using assms(2) by (metis of_int_less_iff of_int_numeral of_int_power)
    then show ?thesis by (simp add: divide_strict_right_mono)
  qed
  finally have "pow2 ?e * 2 ^ k < 2 ^ p" by (simp add: field_simps)
  then have "pow2 ?e * pow2 (int k) < pow2 (int p)" by (simp add: pow2_def)
  then have "pow2 (?e + int k) < pow2 (int p)" by (simp add: pow2_add)
  then have lt: "?e + int k < int p"
  proof -
    have *: "pow2 j = 2 powr (real_of_int j)" for j
      by (simp add: pow2_def powr_realpow [symmetric] powr_minus_divide)
    assume "pow2 (?e + int k) < pow2 (int p)"
    then have "(2::real) powr real_of_int (?e + int k) < 2 powr real_of_int (int p)"
      by (simp only: *)
    then show ?thesis by simp
  qed
  define j where "j = nat (int p - 1 - ?e - int k)"
  have j: "int j = int p - 1 - ?e - int k" using lt by (simp add: j_def)
  have "1 / ?q = pow2 (- (?e - int p + 1))"
    using pow2_add [of "?e - int p + 1" "- (?e - int p + 1)"] pow2_pos [of "?e - int p + 1"]
    by (simp add: pow2_def field_simps)
  also have "- (?e - int p + 1) = int j + int k" using j by simp
  also have "pow2 (int j + int k) = 2 ^ j * 2 ^ k" by (simp add: pow2_add) (simp add: pow2_def)
  finally have iq: "1 / ?q = 2 ^ j * 2 ^ k" .
  have "x / ?q = x * (1 / ?q)" by simp
  also have "\<dots> = real_of_int m * 2 ^ j" unfolding iq using assms(1) by simp
  also have "\<dots> = real_of_int (m * 2 ^ j)" by simp
  finally have xq: "x / ?q = real_of_int (m * 2 ^ j)" .
  have "fl p x = real_of_int (round_half_even (x / ?q)) * ?q"
    using False by (simp add: fl_def Let_def)
  also have "\<dots> = (x / ?q) * ?q" unfolding xq round_half_even_int ..
  also have "\<dots> = x" using pow2_pos [of "?e - int p + 1"] by simp
  finally show ?thesis .
qed

lemma fl_zero: "fl p 0 = 0"
  by (simp add: fl_def)

lemma fl_numeral: "numeral n < (2::int) ^ p \<Longrightarrow> fl p (numeral n) = numeral n"
  using fl_dyadic [of "numeral n" "numeral n" 0 p] by simp

lemma fl_neg_numeral: "numeral n < (2::int) ^ p \<Longrightarrow> fl p (- numeral n) = - numeral n"
  using fl_dyadic [of "- numeral n" "- numeral n" 0 p] by simp

lemma fl_numeral_half: "numeral n < (2::int) ^ p \<Longrightarrow> fl p (numeral n / 2) = numeral n / 2"
  using fl_dyadic [of "numeral n / 2" "numeral n" 1 p] by simp

lemma fl_neg_numeral_half:
  "numeral n < (2::int) ^ p \<Longrightarrow> fl p (- (numeral n / 2)) = - (numeral n / 2)"
  using fl_dyadic [of "- (numeral n / 2)" "- numeral n" 1 p] by simp

lemma fl_one: "0 < p \<Longrightarrow> fl p 1 = 1"
  using fl_dyadic [of 1 1 0 p] by simp

lemma fl_half: "0 < p \<Longrightarrow> fl p (1 / 2) = 1 / 2"
  using fl_dyadic [of "1 / 2" 1 1 p] by simp

lemmas fl_exact_simps = fl_zero fl_numeral fl_neg_numeral fl_numeral_half fl_neg_numeral_half
  fl_one fl_half

lemma float32_rounds_4097_squared: "fl 24 16785409 = 16785408"
proof -
  have e: "exponent 16785409 = 24"
    by (simp add: exponent_def compute_floorlog)
  show ?thesis by (simp add: fl_def e round_half_even_def pow2_def Let_def)
qed

lemma float32_keeps_16785408: "fl 24 16785408 = 16785408"
proof -
  have e: "exponent 16785408 = 24"
    by (simp add: exponent_def compute_floorlog)
  show ?thesis by (simp add: fl_def e round_half_even_def pow2_def Let_def)
qed

lemma float32_autograd_example:
  "autograd_step float32 (1 / 2) [4097, 1] [0, 1]
     (\<lparr>data = 0, grad = None\<rparr>, \<lparr>data = 1, grad = None\<rparr>) =
   Inr (\<lparr>data = - (4097 / 2), grad = Some 0\<rparr>, \<lparr>data = - 8392703, grad = Some 0\<rparr>)"
  by (simp add: autograd_step_def backward_def loss_graph_def broadcast_def sum_to_size_def
      fl_sum_def fl_mean_def accumulate_grad_def sub_inplace_def grad_zero_def Let_def
      float32_def fl_exact_simps float32_rounds_4097_squared float32_keeps_16785408)

lemma float64_numpy_example:
  "gd_step_fl float64 (1 / 2) [4097, 1] [0, 1] (0, 1) = (- (4097 / 2), - (16785407 / 2))"
  by (simp add: gd_step_fl_def fl_sum_def fl_mean_def Let_def float64_def fl_exact_simps)

subsection \<open>The backward pass in exact arithmetic\<close>

lemma foldl_plus: "foldl (\<lambda>s e. s + e) acc v = acc + sum_list (v :: real list)"
  by (induction v arbitrary: acc) simp_all

lemma fl_sum_exact: "fl_sum exact v = sum_list v"
  by (simp add: fl_sum_def exact_def foldl_plus)

lemma fl_mean_exact: "fl_mean exact v = np_mean v"
  by (simp add: fl_mean_def np_mean_def fl_sum_exact) (simp add: exact_def)

lemma gd_step_fl_exact: "gd_step_fl exact lr x y p = gd_step lr x y p"
  by (cases p)
    (simp add: gd_step_fl_def gd_step_def a_grad_def b_grad_def predict_def residual_def
      fl_mean_exact Let_def, simp add: exact_def)

lemma broadcast_same: "length u = length v \<Longrightarrow> broadcast f u v = map2 f u v"
  by (simp add: broadcast_def)

lemma broadcast_scalar: "broadcast f [c] v = map (f c) v"
proof (cases "length v = 1")
  case True
  then obtain d where "v = [d]" by (cases v) auto
  then show ?thesis by (simp add: broadcast_def)
next
  case False
  then show ?thesis by (simp add: broadcast_def)
qed

lemma sum_to_size_scalar: "sum_to_size rnd g [c] = [fl_sum rnd g]"
  by (simp add: sum_to_size_def)

lemma sum_to_size_same: "length g = length v \<Longrightarrow> sum_to_size exact g v = g"
proof (cases "length v = 1")
  case True
  assume "length g = length v"
  with True obtain g0 where "g = [g0]" by (cases g) auto
  with True show ?thesis by (simp add: sum_to_size_def fl_sum_exact)
next
  case False
  then show ?thesis by (simp add: sum_to_size_def)
qed

lemma vjp_a:
  "sum_list (map (\<lambda>g. - g) (map2 (\<lambda>g e. g * (2 * e)) (map (\<lambda>_. c) (map h err)) err)) =
     - 2 * (sum_list err * (c::real))"
  by (induction err) (simp_all add: algebra_simps)

lemma vjp_b:
  "length x = length err \<Longrightarrow>
   sum_list (map2 (\<lambda>g xi. g * xi)
      (map (\<lambda>g. - g) (map2 (\<lambda>g e. g * (2 * e)) (map (\<lambda>_. c) (map h err)) err)) x) =
     - 2 * (sum_list (map2 (\<lambda>xi e. xi * e) x err) * (c::real))"
  by (induction x err rule: list_induct2) (simp_all add: algebra_simps)

lemma length_residual_predict:
  "length x = length y \<Longrightarrow> length (residual y (predict a b x)) = length x"
  by (simp add: residual_def predict_def)

lemma yhat_value:
  "graph_value exact (\<lambda>i. if i = 0 then [a] else [b]) (Add (Leaf 0) (Mul (Leaf 1) (Const x))) =
     predict a b x"
  by (simp add: broadcast_scalar predict_def exact_def)

lemma error_value:
  assumes "length x = length y"
  shows "graph_value exact (\<lambda>i. if i = 0 then [a] else [b])
           (Sub (Const y) (Add (Leaf 0) (Mul (Leaf 1) (Const x)))) =
         residual y (predict a b x)"
proof -
  have "length y = length (predict a b x)" using assms by (simp add: predict_def)
  then show ?thesis
    unfolding graph_value.simps(4) yhat_value graph_value.simps(2)
    by (simp add: broadcast_same residual_def exact_def)
qed

lemma loss_value:
  assumes "length x = length y"
  shows "graph_value exact (\<lambda>i. if i = 0 then [a] else [b]) (loss_graph x y) = [loss a b x y]"
  unfolding loss_graph_def Let_def graph_value.simps(6,7) error_value [OF assms]
  by (simp add: loss_def mse_def fl_mean_exact) (simp add: exact_def)

lemma backprop_yhat:
  assumes "length g = length x"
  shows "backprop exact (\<lambda>i. if i = 0 then [a] else [b]) (Add (Leaf 0) (Mul (Leaf 1) (Const x))) g
           (\<lambda>i. None) =
         (\<lambda>i. None)(0 := Some [sum_list g], 1 := Some [sum_list (map2 (\<lambda>s xi. s * xi) g x)])"
proof -
  let ?env = "\<lambda>i::nat. if i = 0 then [a] else [b]"
  have mulv: "graph_value exact ?env (Mul (Leaf 1) (Const x)) = map (\<lambda>t. b * t) x"
    by (simp add: broadcast_scalar exact_def)
  have s1: "sum_to_size exact g (graph_value exact ?env (Mul (Leaf 1) (Const x))) = g"
    unfolding mulv by (rule sum_to_size_same) (simp add: assms)
  have s2: "broadcast (\<lambda>s t. exact (s * t)) g x = map2 (\<lambda>s xi. s * xi) g x"
    unfolding broadcast_same [OF assms] by (simp add: exact_def)
  show ?thesis
    unfolding backprop.simps(3) s1
    unfolding backprop.simps graph_value.simps s2
    by (simp add: sum_to_size_scalar fl_sum_exact)
qed

lemma backprop_error:
  assumes "length g = length x"
  shows "backprop exact (\<lambda>i. if i = 0 then [a] else [b])
           (Sub (Const y) (Add (Leaf 0) (Mul (Leaf 1) (Const x)))) g (\<lambda>i. None) =
         (\<lambda>i. None)(0 := Some [sum_list (map (\<lambda>s. - s) g)],
                      1 := Some [sum_list (map2 (\<lambda>s xi. s * xi) (map (\<lambda>s. - s) g) x)])"
proof -
  let ?env = "\<lambda>i::nat. if i = 0 then [a] else [b]"
  define h where "h = map (\<lambda>s. - s) g"
  have lh: "length h = length x" by (simp add: h_def assms)
  have "sum_to_size exact h (graph_value exact ?env (Add (Leaf 0) (Mul (Leaf 1) (Const x)))) = h"
    unfolding yhat_value by (rule sum_to_size_same) (simp add: predict_def lh)
  then show ?thesis
    unfolding backprop.simps(4) backprop.simps(2) h_def [symmetric]
    by (simp only: backprop_yhat [OF lh])
qed

lemma backprop_loss_graph:
  assumes "length x = length y"
  shows "backprop exact (\<lambda>i. if i = 0 then [a] else [b]) (loss_graph x y) [1] (\<lambda>i. None) =
     (\<lambda>i. None)(0 := Some [a_grad a b x y], 1 := Some [b_grad a b x y])"
proof -
  let ?env = "\<lambda>i::nat. if i = 0 then [a] else [b]"
  let ?err = "residual y (predict a b x)"
  let ?sq = "map (\<lambda>s. s ^ 2) ?err"
  define g where "g = map2 (\<lambda>s e. s * (2 * e)) (map (\<lambda>_. 1 / real (length ?sq)) ?sq) ?err"
  have len: "length x = length ?err" using assms by (simp add: length_residual_predict)
  have lg: "length g = length x" by (simp add: g_def len [symmetric])
  have da: "sum_list (map (\<lambda>s. - s) g) = a_grad a b x y"
    unfolding g_def vjp_a a_grad_def np_mean_def by simp
  have db: "sum_list (map2 (\<lambda>s xi. s * xi) (map (\<lambda>s. - s) g) x) = b_grad a b x y"
    unfolding g_def vjp_b [OF len] b_grad_def np_mean_def by (simp add: len [symmetric])
  have "backprop exact ?env (loss_graph x y) [1] (\<lambda>i. None) =
      backprop exact ?env (Sub (Const y) (Add (Leaf 0) (Mul (Leaf 1) (Const x)))) g (\<lambda>i. None)"
    unfolding loss_graph_def Let_def backprop.simps(6,7) graph_value.simps(6)
      error_value [OF assms] g_def
    by (simp add: exact_def)
  then show ?thesis unfolding backprop_error [OF lg] da db .
qed

subsection \<open>The two steps compared\<close>

lemma backward_exact:
  assumes "length x = length y"
  shows "backward exact x y (a, b) =
     (accumulate_grad exact a (Some [a_grad (data a) (data b) x y]),
      accumulate_grad exact b (Some [b_grad (data a) (data b) x y]))"
  unfolding backward_def prod.case Let_def backprop_loss_graph [OF assms] by simp

lemma autograd_step_eq:
  assumes "length x = length y" and "grads_clear p"
  shows "\<exists>p'. autograd_step exact lr x y p = Inr p' \<and> grads_clear p' \<and>
           param_values p' = gd_step lr x y (param_values p)"
proof -
  obtain a b where p: "p = (a, b)" by (cases p)
  from assms(2) show ?thesis
    unfolding p autograd_step_def backward_exact [OF assms(1)]
    by (auto simp: grads_clear_def param_values_def gd_step_def sub_inplace_def grad_zero_def
        accumulate_grad_def exact_def)
qed

lemma autograd_loop_eq:
  assumes "length x = length y"
  shows "grads_clear p \<Longrightarrow>
     \<exists>p'. autograd_loop exact n lr x y p = Inr p' \<and>
       param_values p' = gd_loop n lr x y (param_values p)"
proof (induction n arbitrary: p)
  case 0
  show ?case by simp
next
  case (Suc n)
  from autograd_step_eq [OF assms Suc.prems, of lr]
  obtain q where q: "autograd_step exact lr x y p = Inr q" "grads_clear q"
      "param_values q = gd_step lr x y (param_values p)"
    by blast
  from Suc.IH [OF q(2)] q(1,3) show ?case by simp
qed

text \<open>
  In the arithmetic of the code the two steps do not agree within \<open>10\<^sup>-\<^sup>6\<close> on every batch.
  On the batch \<open>x = [4097, 1]\<close>, \<open>y = [0, 1]\<close> with \<open>a = 0\<close>, \<open>b = 1\<close> and the learning
  rate \<open>0.5\<close> the product \<open>4097 * 4097 = 16785409\<close> is not a \<open>float32\<close> number; the autograd
  loop rounds it to \<open>16785408\<close> and ends with \<open>b = -8392703\<close>, the NumPy loop keeps it and
  ends with \<open>b = -8392703.5\<close>.
\<close>

theorem autograd_step_float32_counterexample:
  "gd_step_fl float64 (1 / 2) [4097, 1] [0, 1] (0, 1) = (- (4097 / 2), - (16785407 / 2)) \<and>
   autograd_step float32 (1 / 2) [4097, 1] [0, 1]
     (\<lparr>data = 0, grad = None\<rparr>, \<lparr>data = 1, grad = None\<rparr>) =
     Inr (\<lparr>data = - (4097 / 2), grad = Some 0\<rparr>, \<lparr>data = - 8392703, grad = Some 0\<rparr>) \<and>
   \<not> \<bar>data (snd (projr (autograd_step float32 (1 / 2) [4097, 1] [0, 1]
            (\<lparr>data = 0, grad = None\<rparr>, \<lparr>data = 1, grad = None\<rparr>)))) -
        snd (gd_step_fl float64 (1 / 2) [4097, 1] [0, 1] (0, 1))\<bar> \<le> 1 / 10 ^ 6"
  unfolding float32_autograd_example float64_numpy_example by simp

text \<open>
  Claim C2, amended. In exact arithmetic, from the same parameters and on the same non-empty
  batch, one step of the autograd loop (\<open>loss.backward()\<close> on the recorded graph, the update
  under \<open>no_grad\<close>, \<open>grad.zero_()\<close>) succeeds and leaves exactly the parameters that one step
  of the NumPy loop computes. In the arithmetic of the code (\<open>float32\<close> tensors against
  \<open>float64\<close> arrays) the two results need not agree within \<open>10\<^sup>-\<^sup>6\<close>, as the batch above
  shows.
\<close>

theorem autograd_step_exact_matches_analytic_step:
  assumes "length x = length y" and "x \<noteq> []"
  shows "\<exists>A B. autograd_step exact lr x y (\<lparr>data = a, grad = None\<rparr>, \<lparr>data = b, grad = None\<rparr>) =
             Inr (A, B) \<and>
           (data A, data B) = gd_step lr x y (a, b) \<and>
           (data A, data B) = gd_step_fl exact lr x y (a, b)"
proof -
  let ?p = "(\<lparr>data = a, grad = None\<rparr>, \<lparr>data = b, grad = None\<rparr>)"
  have "grads_clear ?p" by (simp add: grads_clear_def)
  from autograd_step_eq [OF assms(1) this, of lr]
  obtain q where q: "autograd_step exact lr x y ?p = Inr q"
      "param_values q = gd_step lr x y (param_values ?p)"
    by blast
  obtain A B where AB: "q = (A, B)" by (cases q)
  have v: "(data A, data B) = gd_step lr x y (a, b)"
    using q(2) by (simp add: AB param_values_def)
  with q(1) show ?thesis unfolding AB gd_step_fl_exact by simp
qed

theorem autograd_step_exact_witness:
  "length [1, 2 :: real] = length [3, 5 :: real] \<and> [1, 2 :: real] \<noteq> [] \<and>
   (\<exists>A B. autograd_step exact (1 / 10) [1, 2] [3, 5]
        (\<lparr>data = 0, grad = None\<rparr>, \<lparr>data = 1, grad = None\<rparr>) = Inr (A, B) \<and>
      (data A, data B) = gd_step (1 / 10) [1, 2] [3, 5] (0, 1) \<and>
      (data A, data B) = gd_step_fl exact (1 / 10) [1, 2] [3, 5] (0, 1)) \<and>
   gd_step (1 / 10) [1, 2] [3, 5] (0, 1) = (1 / 2, 9 / 5) \<and>
   autograd_step exact (1 / 10) [1, 2] [3, 5] (\<lparr>data = 0, grad = None\<rparr>, \<lparr>data = 1, grad = None\<rparr>) =
     Inr (\<lparr>data = 1 / 2, grad = Some 0\<rparr>, \<lparr>data = 9 / 5, grad = Some 0\<rparr>)"
proof -
  have e: "autograd_step exact (1 / 10) [1, 2] [3, 5]
      (\<lparr>data = 0, grad = None\<rparr>, \<lparr>data = 1, grad = None\<rparr>) =
     Inr (\<lparr>data = 1 / 2, grad = Some 0\<rparr>, \<lparr>data = 9 / 5, grad = Some 0\<rparr>)"
    by (simp add: autograd_step_def backward_def loss_graph_def broadcast_def sum_to_size_def
        fl_sum_def fl_mean_def accumulate_grad_def sub_inplace_def grad_zero_def Let_def
        exact_def)
  have g: "gd_step (1 / 10) [1, 2] [3, 5] (0, 1) = (1 / 2, 9 / 5)"
    by (simp add: gd_step_def a_grad_def b_grad_def np_mean_def residual_def predict_def)
  show ?thesis
    using autograd_step_exact_matches_analytic_step [of "[1, 2]" "[3, 5]" "1 / 10" 0 1] e g
    by simp
qed

text \<open>
  In exact arithmetic the two loops agree after any number of epochs.
\<close>

lemma autograd_loop_matches_gd_loop:
  assumes "length x = length y"
  shows "\<exists>A B. autograd_loop exact n lr x y (\<lparr>data = a, grad = None\<rparr>, \<lparr>data = b, grad = None\<rparr>) =
             Inr (A, B) \<and>
           (data A, data B) = gd_loop n lr x y (a, b)"
proof -
  let ?p = "(\<lparr>data = a, grad = None\<rparr>, \<lparr>data = b, grad = None\<rparr>)"
  have "grads_clear ?p" by (simp add: grads_clear_def)
  from autograd_loop_eq [OF assms this, of n lr]
  obtain q where q: "autograd_loop exact n lr x y ?p = Inr q"
      "param_values q = gd_loop n lr x y (param_values ?p)"
    by blast
  obtain A B where AB: "q = (A, B)" by (cases q)
  from q show ?thesis unfolding AB by (simp add: param_values_def)
qed

section \<open>The index split and the data cell\<close>

lemma random_interval_bound: "fst (random_interval R mx g) \<le> mx"
  by (simp add: random_interval_def split: prod.split)

lemma shuffle_loop_mset:
  "k < length xs \<Longrightarrow> mset (fst (shuffle_loop R k xs g)) = mset xs"
proof (induction k arbitrary: xs g)
  case 0
  show ?case by simp
next
  case (Suc k)
  obtain j g' where d: "random_interval R (Suc k) g = (j, g')"
    by (cases "random_interval R (Suc k) g")
  have "j \<le> Suc k" using random_interval_bound [of R "Suc k" g] d by simp
  with Suc.prems have j: "j < length xs" by simp
  have m: "mset (swap_items (Suc k) j xs) = mset xs"
    unfolding swap_items_def using Suc.prems j by (simp add: mset_swap)
  have "k < length (swap_items (Suc k) j xs)"
    using Suc.prems by (simp add: swap_items_def)
  from Suc.IH [OF this] show ?case by (simp add: d m)
qed

lemma shuffle_mset: "mset (fst (shuffle R xs g)) = mset xs"
proof (cases xs)
  case Nil
  then show ?thesis by (simp add: shuffle_def)
next
  case (Cons a as)
  then show ?thesis unfolding shuffle_def by (intro shuffle_loop_mset) simp
qed

lemma slice_parts: "slice_to k xs @ slice_from k xs = xs"
  by (simp add: slice_to_def slice_from_def)

lemma drop_take_chain:
  "drop a (take (a + l) zs) @ drop (a + l) zs = drop a zs"
proof -
  have "drop a zs = drop a (take (a + l) zs @ drop (a + l) zs)"
    by (simp only: append_take_drop_id)
  also have "\<dots> = drop a (take (a + l) zs) @ drop (a - length (take (a + l) zs)) (drop (a + l) zs)"
    by (rule drop_append)
  also have "drop (a - length (take (a + l) zs)) (drop (a + l) zs) = drop (a + l) zs"
  proof (cases "a + l \<le> length zs")
    case True
    then have "a - length (take (a + l) zs) = 0" by simp
    then show ?thesis by (simp only: drop_0)
  next
    case False
    then have "drop (a + l) zs = []" by simp
    then show ?thesis by (simp only: drop_Nil)
  qed
  finally show ?thesis by (rule sym)
qed

lemma slice_chain:
  "slice a (a + l) xs @ slice (a + l) (a + l + r) xs = slice a (a + l + r) xs"
proof -
  have t: "take (a + l) xs = take (a + l) (take (a + l + r) xs)" by (simp add: min_def)
  show ?thesis unfolding slice_def
    by (subst t) (rule drop_take_chain)
qed

lemma random_split_concat:
  "concat (map (\<lambda>(offset, len). slice (offset - len) offset xs) (zip (accumulate_from acc ls) ls))
     = slice acc (acc + sum_list ls) xs"
proof (induction ls arbitrary: acc)
  case Nil
  show ?case by (simp add: slice_def)
next
  case (Cons l ls)
  show ?case using slice_chain [of acc l xs "sum_list ls"] by (simp add: Cons.IH add.assoc)
qed

lemma shuffle_length: "length (fst (shuffle R xs g)) = length xs"
  using shuffle_mset [of R xs g] by (metis size_mset)

lemma partition_of_range:
  assumes "mset idx = mset [0..<n]" and "tr @ va = idx"
  shows "length tr + length va = n \<and> set tr \<inter> set va = {} \<and>
         mset (tr @ va) = mset [0..<n] \<and> distinct (tr @ va) \<and> set tr \<union> set va = {0..<n}"
proof -
  have m: "mset (tr @ va) = mset [0..<n]" using assms by simp
  have d: "distinct (tr @ va)" using m by (metis distinct_upt mset_eq_imp_distinct_iff)
  have s: "set (tr @ va) = {0..<n}" using m by (metis mset_eq_setD set_upt)
  have l: "length (tr @ va) = n" using m by (metis size_mset length_upt diff_zero)
  from m d s l show ?thesis by auto
qed

lemma shuffle_split_partition:
  assumes "shuffle_split R n k g = ((tr, va), g')"
  shows "length tr + length va = n \<and> set tr \<inter> set va = {} \<and>
         mset (tr @ va) = mset [0..<n] \<and> distinct (tr @ va) \<and> set tr \<union> set va = {0..<n}"
proof -
  obtain idx h where sh: "shuffle R [0..<n] g = (idx, h)" by (cases "shuffle R [0..<n] g")
  have m: "mset idx = mset [0..<n]" using shuffle_mset [of R "[0..<n]" g] sh by simp
  have "tr @ va = idx" using assms sh by (auto simp: shuffle_split_def slice_parts)
  with m show ?thesis by (rule partition_of_range)
qed

lemma random_split_two:
  assumes "n_train + n_val = n"
  shows "\<exists>tr va g'. random_split R n [n_train, n_val] g = Inr ([tr, va], g') \<and>
           length tr = n_train \<and> length va = n_val \<and> set tr \<inter> set va = {} \<and>
           mset (tr @ va) = mset [0..<n] \<and> distinct (tr @ va) \<and> set tr \<union> set va = {0..<n}"
proof -
  obtain idx h where sh: "randperm R n g = (idx, h)" by (cases "randperm R n g")
  have m: "mset idx = mset [0..<n]"
    using shuffle_mset [of R "[0..<n]" g] sh by (simp add: randperm_def)
  then have len: "length idx = n" by (metis size_mset length_upt diff_zero)
  let ?tr = "slice 0 n_train idx" and ?va = "slice n_train (n_train + n_val) idx"
  have r: "random_split R n [n_train, n_val] g = Inr ([?tr, ?va], h)"
  proof -
    have "n - n_val = n_train" using assms by simp
    then show ?thesis using assms sh by (simp add: random_split_def)
  qed
  have c: "?tr @ ?va = idx"
    using slice_chain [of 0 n_train idx n_val] assms len by (simp add: slice_def)
  have lt: "length ?tr = n_train" and lv: "length ?va = n_val"
    using assms len by (simp_all add: slice_def)
  from partition_of_range [OF m c] r lt lv show ?thesis by blast
qed

lemma random_split_bad_sizes:
  "n_train + n_val \<noteq> n \<Longrightarrow> random_split R n [n_train, n_val] g = Inl InvalidArgument"
  by (simp add: random_split_def)

text \<open>
  Claim C3. Both splitters return a partition of the index range: the shuffle-and-slice split
  of the data cell, for every slice position \<open>k\<close>, and \<open>random_split\<close> with two sizes that sum
  to the size of the dataset (it raises otherwise). The lengths of the two index lists add up
  to \<open>n\<close>, the lists are disjoint, and every index below \<open>n\<close> occurs exactly once in them.
\<close>

theorem split_is_partition:
  "(case shuffle_split R n k g of ((train_idx, val_idx), g') \<Rightarrow>
      length train_idx + length val_idx = n \<and> set train_idx \<inter> set val_idx = {} \<and>
      mset (train_idx @ val_idx) = mset [0..<n] \<and> distinct (train_idx @ val_idx) \<and>
      set train_idx \<union> set val_idx = {0..<n}) \<and>
   (case random_split R n [n_train, n_val] g of
      Inl e \<Rightarrow> e = InvalidArgument \<and> n_train + n_val \<noteq> n
    | Inr (parts, g') \<Rightarrow> n_train + n_val = n \<and>
        (\<exists>train_idx val_idx. parts = [train_idx, val_idx] \<and>
           length train_idx = n_train \<and> length val_idx = n_val \<and>
           length train_idx + length val_idx = n \<and> set train_idx \<inter> set val_idx = {} \<and>
           mset (train_idx @ val_idx) = mset [0..<n] \<and> distinct (train_idx @ val_idx) \<and>
           set train_idx \<union> set val_idx = {0..<n}))"
proof
  obtain tr va g' where s: "shuffle_split R n k g = ((tr, va), g')"
    by (cases "shuffle_split R n k g") auto
  from shuffle_split_partition [OF s] show
    "case shuffle_split R n k g of ((train_idx, val_idx), g') \<Rightarrow>
      length train_idx + length val_idx = n \<and> set train_idx \<inter> set val_idx = {} \<and>
      mset (train_idx @ val_idx) = mset [0..<n] \<and> distinct (train_idx @ val_idx) \<and>
      set train_idx \<union> set val_idx = {0..<n}"
    by (simp add: s)
next
  show "case random_split R n [n_train, n_val] g of
      Inl e \<Rightarrow> e = InvalidArgument \<and> n_train + n_val \<noteq> n
    | Inr (parts, g') \<Rightarrow> n_train + n_val = n \<and>
        (\<exists>train_idx val_idx. parts = [train_idx, val_idx] \<and>
           length train_idx = n_train \<and> length val_idx = n_val \<and>
           length train_idx + length val_idx = n \<and> set train_idx \<inter> set val_idx = {} \<and>
           mset (train_idx @ val_idx) = mset [0..<n] \<and> distinct (train_idx @ val_idx) \<and>
           set train_idx \<union> set val_idx = {0..<n})"
  proof (cases "n_train + n_val = n")
    case True
    from random_split_two [OF True, of R g] obtain tr va g' where
      "random_split R n [n_train, n_val] g = Inr ([tr, va], g')"
      "length tr = n_train" "length va = n_val" "set tr \<inter> set va = {}"
      "mset (tr @ va) = mset [0..<n]" "distinct (tr @ va)" "set tr \<union> set va = {0..<n}"
      by blast
    with True show ?thesis by simp
  next
    case False
    then show ?thesis by (simp add: random_split_bad_sizes)
  qed
qed

text \<open>
  Claim C7. The generator seeds the random source before it draws, so two calls with the same
  seed and the same arguments return the same features and labels (and leave the random source
  in the same state), whatever the state of the random source was before each call. The same
  holds for the whole data cell of the notebook.
\<close>

theorem generate_same_seed_same_dataset:
  "generate R seed n true_intercept true_slope noise_std g =
     generate R seed n true_intercept true_slope noise_std g' \<and>
   generate_data R g = generate_data R g'"
  by (simp add: generate_def generate_data_def)

text \<open>The split and the generator on small inputs, with the concrete generator.\<close>

lemma shuffle_split_example: "shuffle_split lcg 5 3 7 = (([3, 0, 1], [4, 2]), 11)"
  by code_simp

lemma random_split_example:
  "random_split lcg 5 [3, 2] 7 = Inr ([[3, 0, 1], [4, 2]], 11) \<and>
   random_split lcg 5 [3, 3] 7 = Inl InvalidArgument"
  by code_simp

lemma generate_example:
  "fst (generate lcg 42 3 1 2 (1 / 10) g) =
     ([5 / 8, 5 / 16, 3 / 4], [187 / 80, 17 / 10, 201 / 80])"
  by code_simp

text \<open>
  Without the call of \<open>np.random.seed\<close> the draws depend on the state the generator is in
  (the comment in the cell: comment out for random results).
\<close>

lemma unseeded_draws_depend_on_state:
  "fst (draws (next_double lcg) 2 0) \<noteq> fst (draws (next_double lcg) 2 1)"
  by (simp add: lcg_def numeral_2_eq_2)

section \<open>The batcher\<close>

lemma batch_sampler_concat: "concat (batch_sampler bs xs acc) = acc @ xs"
  by (induction xs arbitrary: acc) (simp_all add: Let_def)

lemma batch_sampler_count:
  "length acc < bs \<Longrightarrow>
   length (batch_sampler bs xs acc) = (length acc + length xs + bs - 1) div bs"
proof (induction xs arbitrary: acc)
  case Nil
  show ?case
  proof (cases "length acc = 0")
    case True
    with Nil show ?thesis by simp
  next
    case False
    have "0 < length acc" using False by simp
    then have "length acc + bs - 1 = (length acc - 1) + bs" by arith
    then have "(length acc + bs - 1) div bs = (length acc - 1) div bs + 1"
      using Nil by (metis div_add_self2 not_less_zero)
    moreover have "(length acc - 1) div bs = 0" using Nil by simp
    ultimately show ?thesis using False by simp
  qed
next
  case (Cons x xs)
  show ?case
  proof (cases "Suc (length acc) = bs")
    case True
    have "0 < bs" using Cons.prems by simp
    then have "length (batch_sampler bs xs []) = (length xs + bs - 1) div bs"
      using Cons.IH [of "[]"] by simp
    moreover have "(length acc + Suc (length xs) + bs - 1) div bs = Suc ((length xs + bs - 1) div bs)"
    proof -
      have "length acc + Suc (length xs) + bs - 1 = (length xs + bs - 1) + bs"
        using True \<open>0 < bs\<close> by arith
      then show ?thesis using \<open>0 < bs\<close> by (simp only: div_add_self2 Suc_eq_plus1)
    qed
    ultimately show ?thesis using True by (simp add: Let_def)
  next
    case False
    with Cons.prems have "length (acc @ [x]) < bs" by simp
    from Cons.IH [OF this] False show ?thesis by (simp add: Let_def)
  qed
qed

lemma batch_sampler_sizes:
  "length acc < bs \<Longrightarrow> b \<in> set (batch_sampler bs xs acc) \<Longrightarrow> 0 < length b \<and> length b \<le> bs"
proof (induction xs arbitrary: acc)
  case Nil
  then show ?case by (auto split: if_splits)
next
  case (Cons x xs)
  show ?case
  proof (cases "Suc (length acc) = bs")
    case True
    have "0 < bs" using Cons.prems by simp
    then have "b \<in> set (batch_sampler bs xs []) \<Longrightarrow> 0 < length b \<and> length b \<le> bs"
      using Cons.IH [of "[]"] by simp
    with Cons.prems(2) True show ?thesis by (auto simp: Let_def)
  next
    case False
    with Cons.prems have "length (acc @ [x]) < bs" by simp
    from Cons.IH [OF this] Cons.prems(2) False show ?thesis by (simp add: Let_def)
  qed
qed

lemma batch_sampler_full:
  "length acc < bs \<Longrightarrow> b \<in> set (butlast (batch_sampler bs xs acc)) \<Longrightarrow> length b = bs"
proof (induction xs arbitrary: acc)
  case Nil
  then show ?case by (auto split: if_splits)
next
  case (Cons x xs)
  show ?case
  proof (cases "Suc (length acc) = bs")
    case True
    have "0 < bs" using Cons.prems by simp
    then have "b \<in> set (butlast (batch_sampler bs xs [])) \<Longrightarrow> length b = bs"
      using Cons.IH [of "[]"] by simp
    with Cons.prems(2) True show ?thesis by (auto simp: Let_def split: if_splits)
  next
    case False
    with Cons.prems have "length (acc @ [x]) < bs" by simp
    from Cons.IH [OF this] Cons.prems(2) False show ?thesis by (simp add: Let_def)
  qed
qed

lemma batch_sampler_last:
  "length acc < bs \<Longrightarrow> batch_sampler bs xs acc \<noteq> [] \<Longrightarrow>
   length (last (batch_sampler bs xs acc)) =
     (if (length acc + length xs) mod bs = 0 then bs else (length acc + length xs) mod bs)"
proof (induction xs arbitrary: acc)
  case Nil
  then show ?case by (auto split: if_splits)
next
  case (Cons x xs)
  show ?case
  proof (cases "Suc (length acc) = bs")
    case True
    have pos: "0 < bs" using Cons.prems by simp
    have m: "(length acc + length (x # xs)) mod bs = length xs mod bs"
    proof -
      have "length acc + length (x # xs) = length xs + bs" using True by simp
      then show ?thesis by (simp only: mod_add_self2)
    qed
    show ?thesis
    proof (cases "batch_sampler bs xs [] = []")
      case e: True
      then have "length xs = 0"
        using batch_sampler_concat [of bs xs "[]"] by simp
      with e True m show ?thesis by (simp add: Let_def)
    next
      case ne: False
      from Cons.IH [of "[]"] pos ne
      have "length (last (batch_sampler bs xs [])) =
          (if length xs mod bs = 0 then bs else length xs mod bs)" by simp
      with ne True m show ?thesis by (simp add: Let_def)
    qed
  next
    case False
    with Cons.prems have l: "length (acc @ [x]) < bs" by simp
    from Cons.prems(2) False have ne: "batch_sampler bs xs (acc @ [x]) \<noteq> []"
      by (simp add: Let_def)
    from Cons.IH [OF l ne] False show ?thesis by (simp add: Let_def)
  qed
qed

lemma ceiling_div_nat:
  assumes "0 < b"
  shows "\<lceil>real n / real b\<rceil> = int ((n + b - 1) div b)"
proof (cases "n = 0")
  case True
  then show ?thesis using assms by simp
next
  case False
  let ?q = "(n + b - 1) div b"
  have b: "real b > 0" using assms by simp
  have up: "n + b - 1 < ?q * b + b"
    using assms by (metis dividend_less_div_times mult.commute add.commute)
  then have 1: "n \<le> ?q * b" using assms by simp
  have q: "0 < ?q" using False assms by (simp add: div_greater_zero_iff)
  have le: "?q * b \<le> n + b - 1" by simp
  have eq: "?q * b = (?q - 1) * b + b" using q by (simp add: diff_mult_distrib)
  have "0 < n" using False by simp
  with le eq assms have 2: "(?q - 1) * b < n" by arith
  show ?thesis
  proof (rule ceiling_unique)
    have "real n \<le> real (?q * b)" using 1 by (simp only: of_nat_le_iff)
    then show "real n / real b \<le> of_int (int ?q)"
      using b by (simp add: divide_le_eq)
    have "real ((?q - 1) * b) < real n" using 2 by (simp only: of_nat_less_iff)
    then have "(real ?q - 1) * real b < real n" using q by (simp add: of_nat_diff)
    then show "of_int (int ?q) - 1 < real n / real b"
      using b by (simp add: less_divide_eq)
  qed
qed

lemma sampler_mset: "mset (fst (sampler R indices shuffled g)) = mset indices"
proof (cases shuffled)
  case False
  then show ?thesis by (simp add: sampler_def)
next
  case True
  obtain perm h where p: "randperm R (length indices) g = (perm, h)"
    by (cases "randperm R (length indices) g")
  have "mset perm = mset [0..<length indices]"
    using shuffle_mset [of R "[0..<length indices]" g] p by (simp add: randperm_def)
  then have "mset (map (\<lambda>p. indices ! p) perm) = mset (map (\<lambda>p. indices ! p) [0..<length indices])"
    by (metis mset_map)
  also have "map (\<lambda>p. indices ! p) [0..<length indices] = indices" by (rule map_nth)
  finally show ?thesis using True p by (simp add: sampler_def)
qed

lemma sampler_unshuffled: "sampler R indices False g = (indices, g)"
  by (simp add: sampler_def)

lemma sampler_length: "length (fst (sampler R indices shuffled g)) = length indices"
  using sampler_mset [of R indices shuffled g] by (metis size_mset)

lemma iterate_positive:
  "0 < batch_size \<Longrightarrow>
   iterate R indices batch_size shuffled g =
     Inr (batch_sampler (nat batch_size) (fst (sampler R indices shuffled g)) [],
          snd (sampler R indices shuffled g))"
  by (simp add: iterate_def DataLoader_def loader_iter_def split: prod.split)

lemma train_batches_error:
  "train_batches step ds batches st = Inl e \<Longrightarrow> e = IndexError"
proof (induction batches arbitrary: st)
  case Nil
  then show ?case by simp
next
  case (Cons b bs)
  then show ?case
    by (auto simp: fetch_def split: sum.splits prod.splits if_splits)
qed

text \<open>
  Claim C4. For every index list and every positive batch size, one pass of the batcher
  succeeds, and the concatenation of its batches is a permutation of the index list: every
  index occurs in the batches as often as in the list, with and without shuffling. Without
  shuffling the concatenation is the list itself.
\<close>

theorem batches_cover_indices:
  assumes "0 < batch_size"
  shows "\<exists>batches g'. iterate R indices batch_size shuffled g = Inr (batches, g') \<and>
           mset (concat batches) = mset indices \<and>
           (shuffled \<or> concat batches = indices)"
proof -
  let ?order = "fst (sampler R indices shuffled g)"
  let ?batches = "batch_sampler (nat batch_size) ?order []"
  have c: "concat ?batches = ?order" by (simp add: batch_sampler_concat)
  have "mset (concat ?batches) = mset indices" unfolding c by (rule sampler_mset)
  moreover have "shuffled \<or> concat ?batches = indices"
    unfolding c by (cases shuffled) (simp_all add: sampler_unshuffled)
  ultimately show ?thesis unfolding iterate_positive [OF assms] by simp
qed

theorem batches_cover_indices_witness:
  "(0::int) < 2 \<and>
   iterate lcg [10, 11, 12, 13, 14] 2 True 7 = Inr ([[13, 10], [11, 14], [12]], 11) \<and>
   (\<exists>batches g'. iterate lcg [10, 11, 12, 13, 14] 2 True 7 = Inr (batches, g') \<and>
      mset (concat batches) = mset [10, 11, 12, 13, 14] \<and>
      (True \<or> concat batches = [10, 11, 12, 13, 14]))"
proof -
  have e: "iterate lcg [10, 11, 12, 13, 14] 2 True 7 = Inr ([[13, 10], [11, 14], [12]], 11)"
    by code_simp
  show ?thesis
    using batches_cover_indices [of 2 lcg "[10, 11, 12, 13, 14]" True 7] e by simp
qed

text \<open>
  Claim C5. For an index list of length \<open>n\<close> and a positive batch size \<open>b\<close>, one pass of the
  batcher yields \<open>\<lceil>n / b\<rceil>\<close> batches; every batch but the last has \<open>b\<close> indices, and the last
  one has \<open>n mod b\<close> indices, or \<open>b\<close> when \<open>b\<close> divides \<open>n\<close>. There is no batch exactly when the
  list is empty.
\<close>

theorem batch_count_and_sizes:
  assumes "0 < batch_size"
  shows "\<exists>batches g'. iterate R indices batch_size shuffled g = Inr (batches, g') \<and>
           int (length batches) = \<lceil>real (length indices) / real_of_int batch_size\<rceil> \<and>
           (\<forall>k. k + 1 < length batches \<longrightarrow> length (batches ! k) = nat batch_size) \<and>
           (batches \<noteq> [] \<longrightarrow>
              length (last batches) =
                (if length indices mod nat batch_size = 0 then nat batch_size
                 else length indices mod nat batch_size)) \<and>
           (batches = [] \<longleftrightarrow> indices = [])"
proof -
  let ?bs = "nat batch_size"
  let ?order = "fst (sampler R indices shuffled g)"
  let ?batches = "batch_sampler ?bs ?order []"
  have pos: "length ([] :: nat list) < ?bs" using assms by simp
  have len: "length ?order = length indices" by (rule sampler_length)
  have cnt: "length ?batches = (length indices + ?bs - 1) div ?bs"
    using batch_sampler_count [OF pos, of ?order] len by simp
  have "real_of_int batch_size = real ?bs" using assms by simp
  then have 1: "int (length ?batches) = \<lceil>real (length indices) / real_of_int batch_size\<rceil>"
    using ceiling_div_nat [of ?bs "length indices"] assms cnt by simp
  have 2: "\<forall>k. k + 1 < length ?batches \<longrightarrow> length (?batches ! k) = ?bs"
  proof (intro allI impI)
    fix k assume k: "k + 1 < length ?batches"
    then have "k < length (butlast ?batches)" by simp
    then have "butlast ?batches ! k \<in> set (butlast ?batches)" by (rule nth_mem)
    moreover have "butlast ?batches ! k = ?batches ! k"
      using \<open>k < length (butlast ?batches)\<close> by (rule nth_butlast)
    ultimately show "length (?batches ! k) = ?bs"
      using batch_sampler_full [OF pos] by metis
  qed
  have 3: "?batches \<noteq> [] \<longrightarrow> length (last ?batches) =
      (if length indices mod ?bs = 0 then ?bs else length indices mod ?bs)"
    using batch_sampler_last [OF pos, of ?order] len by simp
  have 4: "?batches = [] \<longleftrightarrow> indices = []"
  proof
    assume "?batches = []"
    then have "concat ?batches = []" by simp
    then have "?order = []" by (simp add: batch_sampler_concat)
    then show "indices = []" using len by simp
  next
    assume "indices = []"
    then have "?order = []" using len by simp
    then show "?batches = []" by simp
  qed
  from 1 2 3 4 show ?thesis unfolding iterate_positive [OF assms] by simp
qed

theorem batch_count_and_sizes_witness:
  "(0::int) < 2 \<and>
   iterate lcg [10, 11, 12, 13, 14] 2 False 7 = Inr ([[10, 11], [12, 13], [14]], 7) \<and>
   (\<exists>batches g'. iterate lcg [10, 11, 12, 13, 14] 2 False 7 = Inr (batches, g') \<and>
      int (length batches) = \<lceil>real (length [10, 11, 12, 13, 14 :: nat]) / real_of_int 2\<rceil> \<and>
      length batches = 3 \<and> length (batches ! 0) = 2 \<and> length (batches ! 1) = 2 \<and>
      length (last batches) = 1)"
proof -
  have e: "iterate lcg [10, 11, 12, 13, 14] 2 False 7 = Inr ([[10, 11], [12, 13], [14]], 7)"
    by code_simp
  show ?thesis
    using batch_count_and_sizes [of 2 lcg "[10, 11, 12, 13, 14]" False 7] e by simp
qed

text \<open>
  Claim C8. The batcher returns the error InvalidArgument when the batch size is zero or
  negative, and so does the training phase that calls it; the error is the result of the
  call itself. For every positive batch size the batcher returns batches, and the training
  phase does not end in InvalidArgument.
\<close>

theorem batch_size_validation:
  "(if batch_size \<le> 0
    then iterate R indices batch_size shuffled g = Inl InvalidArgument \<and>
         epoch_train step R ds indices batch_size shuffled (st, g) = Inl InvalidArgument
    else (\<exists>batches g'. iterate R indices batch_size shuffled g = Inr (batches, g')) \<and>
         epoch_train step R ds indices batch_size shuffled (st, g) \<noteq> Inl InvalidArgument)"
proof (cases "batch_size \<le> 0")
  case True
  then show ?thesis by (simp add: iterate_def DataLoader_def epoch_train_def)
next
  case False
  then have pos: "0 < batch_size" by simp
  have "epoch_train step R ds indices batch_size shuffled (st, g) \<noteq> Inl InvalidArgument"
  proof
    assume "epoch_train step R ds indices batch_size shuffled (st, g) = Inl InvalidArgument"
    then obtain batches where "train_batches step ds batches st = Inl InvalidArgument"
      unfolding epoch_train_def iterate_positive [OF pos]
      by (auto split: sum.splits)
    from train_batches_error [OF this] show False by simp
  qed
  with False iterate_positive [OF pos, of R indices shuffled g] show ?thesis by simp
qed

lemma batch_size_validation_example:
  "iterate lcg [10, 11, 12] 0 True 7 = Inl InvalidArgument \<and>
   iterate lcg [10, 11, 12] (- 4) False 7 = Inl InvalidArgument \<and>
   iterate lcg [10, 11, 12] 4 False 7 = Inr ([[10, 11, 12]], 7)"
  by code_simp

section \<open>Validation and training phases\<close>

lemma epoch_validate_effect:
  "weight (model (epoch_validate val_batches st)) = weight (model st) \<and>
   bias (model (epoch_validate val_batches st)) = bias (model st) \<and>
   losses (epoch_validate val_batches st) = losses st \<and>
   val_losses (epoch_validate val_batches st) =
     val_losses st @
     map (\<lambda>(x_val, y_val).
            mse_loss y_val (map (\<lambda>xi. weight (model st) * xi + bias (model st)) x_val))
       val_batches"
proof (induction val_batches arbitrary: st)
  case Nil
  show ?case by simp
next
  case (Cons b rest)
  obtain xv yv where b: "b = (xv, yv)" by (cases b)
  let ?st = "st\<lparr>model := (model st)\<lparr>training := False\<rparr>,
      val_losses := val_losses st @ [mse_loss yv (forward ((model st)\<lparr>training := False\<rparr>) xv)]\<rparr>"
  have step: "epoch_validate (b # rest) st = epoch_validate rest ?st"
    by (simp add: b Let_def)
  show ?case unfolding step using Cons.IH [of ?st] by (simp add: b forward_def)
qed

text \<open>
  Claim C6. The validation phase does not change the parameters: weight and bias after it
  are what they were before, and the training losses are untouched. It appends one loss per
  validation batch, and each of these losses is a function of the weight, the bias and the
  batch alone; so running the phase twice on the same batches appends the same sequence of
  losses twice.
\<close>

theorem validation_leaves_parameters:
  "weight (model (epoch_validate val_batches st)) = weight (model st) \<and>
   bias (model (epoch_validate val_batches st)) = bias (model st) \<and>
   losses (epoch_validate val_batches st) = losses st \<and>
   val_losses (epoch_validate val_batches st) =
     val_losses st @
     map (\<lambda>(x_val, y_val).
            mse_loss y_val (map (\<lambda>xi. weight (model st) * xi + bias (model st)) x_val))
       val_batches \<and>
   val_losses (epoch_validate val_batches (epoch_validate val_batches st)) =
     val_losses st @
     map (\<lambda>(x_val, y_val).
            mse_loss y_val (map (\<lambda>xi. weight (model st) * xi + bias (model st)) x_val))
       val_batches @
     map (\<lambda>(x_val, y_val).
            mse_loss y_val (map (\<lambda>xi. weight (model st) * xi + bias (model st)) x_val))
       val_batches"
  using epoch_validate_effect [of val_batches st]
    epoch_validate_effect [of val_batches "epoch_validate val_batches st"]
  by simp

lemma epoch_validate_example:
  "epoch_validate [([1, 2], [3, 5]), ([3], [7])]
     \<lparr>model = \<lparr>weight = 1, bias = 0, training = True\<rparr>, losses = [4], val_losses = []\<rparr> =
   \<lparr>model = \<lparr>weight = 1, bias = 0, training = False\<rparr>, losses = [4], val_losses = [13 / 2, 16]\<rparr>"
  by (simp add: forward_def mse_loss_def np_mean_def Let_def)

lemma fetch_in_range:
  "list_all (\<lambda>i. i < length ds) batch \<Longrightarrow>
   fetch ds batch = Inr (map (\<lambda>i. fst (ds ! i)) batch, map (\<lambda>i. snd (ds ! i)) batch)"
  by (simp add: fetch_def)

lemma train_batches_fold:
  "list_all (list_all (\<lambda>i. i < length ds)) batches \<Longrightarrow>
   \<exists>st'. train_batches step ds batches st = Inr st' \<and>
     model st' = foldl (\<lambda>m batch. snd (step (map (\<lambda>i. fst (ds ! i)) batch)
                                         (map (\<lambda>i. snd (ds ! i)) batch) m)) (model st) batches \<and>
     length (losses st') = length (losses st) + length batches \<and>
     val_losses st' = val_losses st"
proof (induction batches arbitrary: st)
  case Nil
  show ?case by simp
next
  case (Cons b rest)
  let ?x = "map (\<lambda>i. fst (ds ! i)) b" and ?y = "map (\<lambda>i. snd (ds ! i)) b"
  obtain l m' where s: "step ?x ?y (model st) = (l, m')" by (cases "step ?x ?y (model st)")
  let ?st = "st\<lparr>model := m', losses := losses st @ [l]\<rparr>"
  from Cons.prems have b: "list_all (\<lambda>i. i < length ds) b"
    and r: "list_all (list_all (\<lambda>i. i < length ds)) rest" by simp_all
  have step: "train_batches step ds (b # rest) st = train_batches step ds rest ?st"
    by (simp add: fetch_in_range [OF b] s)
  from Cons.IH [OF r, of ?st] show ?case unfolding step by (simp add: s)
qed

lemma batch_sampler_one: "batch_sampler (Suc 0) xs [] = map (\<lambda>i. [i]) xs"
  by (induction xs) (simp_all add: Let_def)

lemma batch_sampler_whole:
  "length acc + length xs = n \<Longrightarrow> 0 < n \<Longrightarrow> batch_sampler n xs acc = [acc @ xs]"
proof (induction xs arbitrary: acc)
  case Nil
  then show ?case by simp
next
  case (Cons x xs)
  show ?case
  proof (cases "length (acc @ [x]) = n")
    case True
    have "length acc + 1 = n" using True by simp
    moreover have "length acc + (length xs + 1) = n" using Cons.prems(1) by simp
    ultimately have "length xs = 0" by arith
    then have "xs = []" by simp
    with True show ?thesis by (simp add: Let_def)
  next
    case False
    from Cons.prems have "length (acc @ [x]) + length xs = n" by simp
    from Cons.IH [OF this Cons.prems(2)] False show ?thesis by (simp add: Let_def)
  qed
qed

lemma sampler_in_range:
  assumes "list_all (\<lambda>i. i < length ds) indices"
  shows "list_all (\<lambda>i. i < length ds) (fst (sampler R indices shuffled g))"
proof -
  have "set (fst (sampler R indices shuffled g)) = set indices"
    using sampler_mset [of R indices shuffled g] by (rule mset_eq_setD)
  with assms show ?thesis by (simp add: list_all_iff)
qed

text \<open>
  Claim C9. For a training partition of \<open>N\<close> indices of the dataset, one epoch with batch size
  1 applies the optimisation step \<open>N\<close> times, once per sample in the order of the pass, and
  records \<open>N\<close> losses; one epoch with batch size \<open>N\<close> (for \<open>N > 0\<close>) applies it exactly once,
  to the whole partition, and records one loss. Both are runs of the same training phase,
  for any optimisation step.
\<close>

theorem updates_per_epoch:
  assumes "list_all (\<lambda>i. i < length ds) indices"
  shows "(\<exists>st' g' order.
            epoch_train step R ds indices 1 shuffled (st, g) = Inr (st', g') \<and>
            mset order = mset indices \<and> length order = length indices \<and>
            model st' = foldl (\<lambda>m i. snd (step [fst (ds ! i)] [snd (ds ! i)] m)) (model st) order \<and>
            length (losses st') = length (losses st) + length indices) \<and>
         (indices = [] \<or>
          (\<exists>st' g' order.
            epoch_train step R ds indices (int (length indices)) shuffled (st, g) = Inr (st', g') \<and>
            mset order = mset indices \<and> length order = length indices \<and>
            model st' = snd (step (map (\<lambda>i. fst (ds ! i)) order) (map (\<lambda>i. snd (ds ! i)) order)
                               (model st)) \<and>
            length (losses st') = length (losses st) + 1))"
proof
  let ?order = "fst (sampler R indices shuffled g)"
  let ?g = "snd (sampler R indices shuffled g)"
  have m: "mset ?order = mset indices" by (rule sampler_mset)
  have len: "length ?order = length indices" by (rule sampler_length)
  have rng: "list_all (\<lambda>i. i < length ds) ?order" using assms by (rule sampler_in_range)
  show "\<exists>st' g' order.
            epoch_train step R ds indices 1 shuffled (st, g) = Inr (st', g') \<and>
            mset order = mset indices \<and> length order = length indices \<and>
            model st' = foldl (\<lambda>m i. snd (step [fst (ds ! i)] [snd (ds ! i)] m)) (model st) order \<and>
            length (losses st') = length (losses st) + length indices"
  proof -
    have it: "iterate R indices 1 shuffled g = Inr (map (\<lambda>i. [i]) ?order, ?g)"
      using iterate_positive [of 1 R indices shuffled g] by (simp add: batch_sampler_one)
    have "list_all (list_all (\<lambda>i. i < length ds)) (map (\<lambda>i. [i]) ?order)"
      using rng by (simp add: list_all_iff)
    from train_batches_fold [OF this, of step st] obtain st' where
      st': "train_batches step ds (map (\<lambda>i. [i]) ?order) st = Inr st'"
        "model st' = foldl (\<lambda>m batch. snd (step (map (\<lambda>i. fst (ds ! i)) batch)
           (map (\<lambda>i. snd (ds ! i)) batch) m)) (model st) (map (\<lambda>i. [i]) ?order)"
        "length (losses st') = length (losses st) + length (map (\<lambda>i. [i]) ?order)"
      by blast
    have e: "epoch_train step R ds indices 1 shuffled (st, g) = Inr (st', ?g)"
      by (simp only: epoch_train_def prod.case it sum.case st'(1))
    have f: "model st' = foldl (\<lambda>m i. snd (step [fst (ds ! i)] [snd (ds ! i)] m)) (model st) ?order"
      unfolding st'(2) by (simp add: foldl_map)
    from e m f st'(3) len show ?thesis by auto
  qed
  show "indices = [] \<or>
          (\<exists>st' g' order.
            epoch_train step R ds indices (int (length indices)) shuffled (st, g) = Inr (st', g') \<and>
            mset order = mset indices \<and> length order = length indices \<and>
            model st' = snd (step (map (\<lambda>i. fst (ds ! i)) order) (map (\<lambda>i. snd (ds ! i)) order)
                               (model st)) \<and>
            length (losses st') = length (losses st) + 1)"
  proof (cases "indices = []")
    case True
    then show ?thesis by simp
  next
    case False
    then have pos: "0 < length indices" by simp
    have w: "batch_sampler (length indices) ?order [] = [?order]"
      using batch_sampler_whole [of "[]" ?order "length indices"] len pos by simp
    have it: "iterate R indices (int (length indices)) shuffled g = Inr ([?order], ?g)"
      using iterate_positive [of "int (length indices)" R indices shuffled g] pos w by simp
    have "list_all (list_all (\<lambda>i. i < length ds)) [?order]" using rng by simp
    from train_batches_fold [OF this, of step st] obtain st' where
      st': "train_batches step ds [?order] st = Inr st'"
        "model st' = foldl (\<lambda>m batch. snd (step (map (\<lambda>i. fst (ds ! i)) batch)
           (map (\<lambda>i. snd (ds ! i)) batch) m)) (model st) [?order]"
        "length (losses st') = length (losses st) + length [?order]"
      by blast
    have e: "epoch_train step R ds indices (int (length indices)) shuffled (st, g) = Inr (st', ?g)"
      by (simp only: epoch_train_def prod.case it sum.case st'(1))
    from e m len st'(2,3) show ?thesis by auto
  qed
qed

theorem updates_per_epoch_witness:
  "list_all (\<lambda>i. i < length [(1 :: real, 3 :: real), (2, 5)]) [0, 1] \<and>
   epoch_train (train_step (1 / 10)) lcg [(1, 3), (2, 5)] [0, 1] 1 False
     (\<lparr>model = \<lparr>weight = 1, bias = 0, training = False\<rparr>, losses = [], val_losses = []\<rparr>, 7) =
     Inr (\<lparr>model = \<lparr>weight = 53 / 25, bias = 19 / 25, training = True\<rparr>,
            losses = [4, 81 / 25], val_losses = []\<rparr>, 7) \<and>
   epoch_train (train_step (1 / 10)) lcg [(1, 3), (2, 5)] [0, 1] 2 False
     (\<lparr>model = \<lparr>weight = 1, bias = 0, training = False\<rparr>, losses = [], val_losses = []\<rparr>, 7) =
     Inr (\<lparr>model = \<lparr>weight = 9 / 5, bias = 1 / 2, training = True\<rparr>,
            losses = [13 / 2], val_losses = []\<rparr>, 7) \<and>
   (\<exists>st' g' order.
      epoch_train (train_step (1 / 10)) lcg [(1, 3), (2, 5)] [0, 1] 1 False
        (\<lparr>model = \<lparr>weight = 1, bias = 0, training = False\<rparr>, losses = [], val_losses = []\<rparr>, 7) =
        Inr (st', g') \<and>
      mset order = mset [0, 1] \<and> length (losses st') = 2)"
proof -
  let ?ds = "[(1 :: real, 3 :: real), (2, 5)]"
  let ?st = "\<lparr>model = \<lparr>weight = 1, bias = 0, training = False\<rparr>, losses = [], val_losses = []\<rparr>"
  have h: "list_all (\<lambda>i. i < length ?ds) [0, 1]" by simp
  have e1: "epoch_train (train_step (1 / 10)) lcg ?ds [0, 1] 1 False (?st, 7) =
     Inr (\<lparr>model = \<lparr>weight = 53 / 25, bias = 19 / 25, training = True\<rparr>,
            losses = [4, 81 / 25], val_losses = []\<rparr>, 7)"
    by (simp add: epoch_train_def iterate_def DataLoader_def loader_iter_def sampler_def train_step_def fetch_def loss_def
        mse_def np_mean_def a_grad_def b_grad_def residual_def predict_def Let_def power2_eq_square)
  have e2: "epoch_train (train_step (1 / 10)) lcg ?ds [0, 1] 2 False (?st, 7) =
     Inr (\<lparr>model = \<lparr>weight = 9 / 5, bias = 1 / 2, training = True\<rparr>,
            losses = [13 / 2], val_losses = []\<rparr>, 7)"
    by (simp add: epoch_train_def iterate_def DataLoader_def loader_iter_def sampler_def train_step_def fetch_def loss_def
        mse_def np_mean_def a_grad_def b_grad_def residual_def predict_def Let_def power2_eq_square)
  from updates_per_epoch [OF h, of "train_step (1 / 10)" lcg False ?st 7]
  obtain st' g' order where
    r: "epoch_train (train_step (1 / 10)) lcg ?ds [0, 1] 1 False (?st, 7) = Inr (st', g')"
      "mset order = mset [0, 1]"
      "length (losses st') = length (losses ?st) + length [0, 1 :: nat]"
    by blast
  from r(3) have "length (losses st') = 2" by simp
  with r(1,2) have c: "\<exists>st' g' order.
      epoch_train (train_step (1 / 10)) lcg ?ds [0, 1] 1 False (?st, 7) = Inr (st', g') \<and>
      mset order = mset [0, 1] \<and> length (losses st') = 2"
    by blast
  from h e1 e2 c show ?thesis by (intro conjI)
qed

section \<open>The two dataset classes\<close>

lemma tensor_index_in_range: "i < length t \<Longrightarrow> tensor_index t (int i) = Inr (t ! i)"
  by (simp add: tensor_index_def)

lemma getitem_agree:
  "tensor_getitem \<lparr>tensors = (x, y)\<rparr> index = custom_getitem (CustomDataset x y) index"
  by (simp add: tensor_getitem_def custom_getitem_def CustomDataset_def cong: sum.case_cong)

lemma custom_getitem_in_range:
  "length x = length y \<Longrightarrow> i < length x \<Longrightarrow>
   custom_getitem (CustomDataset x y) (int i) = Inr (x ! i, y ! i)"
  by (simp add: custom_getitem_def CustomDataset_def tensor_index_in_range)

text \<open>
  Claim C10. For tensors \<open>x\<close> and \<open>y\<close> of one length, \<open>CustomDataset(x, y)\<close> behaves as
  \<open>TensorDataset(x, y)\<close>: the latter is built without error, both return the same result
  for every index (a pair or \<open>IndexError\<close>), both have the length of \<open>x\<close>, and for every
  \<open>i\<close> below that length the item at \<open>i\<close> is the pair \<open>(x[i], y[i])\<close>.
\<close>

theorem custom_dataset_matches_tensor_dataset:
  assumes "length x = length y"
  shows "(\<exists>td. TensorDataset x y = Inr td \<and>
            (\<forall>index. tensor_getitem td index = custom_getitem (CustomDataset x y) index) \<and>
            tensor_len td = custom_len (CustomDataset x y)) \<and>
         custom_len (CustomDataset x y) = length x \<and>
         (\<forall>i < length x. custom_getitem (CustomDataset x y) (int i) = Inr (x ! i, y ! i))"
proof (intro conjI)
  have "TensorDataset x y = Inr \<lparr>tensors = (x, y)\<rparr>"
    using assms by (simp add: TensorDataset_def)
  moreover have "tensor_len \<lparr>tensors = (x, y)\<rparr> = custom_len (CustomDataset x y)"
    by (simp add: tensor_len_def custom_len_def CustomDataset_def)
  ultimately show "\<exists>td. TensorDataset x y = Inr td \<and>
            (\<forall>index. tensor_getitem td index = custom_getitem (CustomDataset x y) index) \<and>
            tensor_len td = custom_len (CustomDataset x y)"
    using getitem_agree [of x y] by blast
  show "custom_len (CustomDataset x y) = length x"
    by (simp add: custom_len_def CustomDataset_def)
  show "\<forall>i < length x. custom_getitem (CustomDataset x y) (int i) = Inr (x ! i, y ! i)"
    using custom_getitem_in_range [OF assms] by blast
qed

theorem custom_dataset_witness:
  "length [1, 2, 3 :: nat] = length [4, 5, 6 :: nat] \<and>
   custom_getitem (CustomDataset [1, 2, 3 :: nat] [4, 5, 6]) 1 = Inr (2, 5) \<and>
   custom_getitem (CustomDataset [1, 2, 3 :: nat] [4, 5, 6]) (- 1) = Inr (3, 6) \<and>
   custom_getitem (CustomDataset [1, 2, 3 :: nat] [4, 5, 6]) 3 = Inl IndexError \<and>
   (\<exists>td. TensorDataset [1, 2, 3 :: nat] [4, 5, 6] = Inr td \<and>
      tensor_getitem td 1 = Inr (2, 5) \<and> tensor_getitem td (- 1) = Inr (3, 6) \<and>
      tensor_getitem td 3 = Inl IndexError \<and> tensor_len td = 3) \<and>
   custom_len (CustomDataset [1, 2, 3 :: nat] [4, 5, 6]) = 3"
proof -
  have e: "custom_getitem (CustomDataset [1, 2, 3 :: nat] [4, 5, 6]) 1 = Inr (2, 5)"
    "custom_getitem (CustomDataset [1, 2, 3 :: nat] [4, 5, 6]) (- 1) = Inr (3, 6)"
    "custom_getitem (CustomDataset [1, 2, 3 :: nat] [4, 5, 6]) 3 = Inl IndexError"
    by (simp_all add: custom_getitem_def CustomDataset_def tensor_index_def)
  show ?thesis
    using custom_dataset_matches_tensor_dataset [of "[1, 2, 3 :: nat]" "[4, 5, 6]"] e
    by auto
qed

section \<open>The data cell runs without error\<close>

lemma draws_length: "length (fst (draws f n g)) = n"
proof (induction n arbitrary: g)
  case 0
  show ?case by simp
next
  case (Suc n)
  obtain v g1 where f: "f g = (v, g1)" by (cases "f g")
  obtain vs g2 where d: "draws f n g1 = (vs, g2)" by (cases "draws f n g1")
  from Suc [of g1] d have "length vs = n" by simp
  then show ?case by (simp add: f d)
qed

lemma take_rows_in_range:
  "set idx \<subseteq> {0..<length x} \<Longrightarrow> take_rows x idx = Inr (map (\<lambda>i. x ! i) idx)"
  by (auto simp: take_rows_def list_all_iff)

lemma generate_lengths:
  "generate R seed n ti ts sd g = ((x, y), g') \<Longrightarrow> length x = n \<and> length y = n"
proof -
  assume a: "generate R seed n ti ts sd g = ((x, y), g')"
  obtain xs g2 where d1: "draws (next_double R) n (seed_state R seed) = (xs, g2)"
    by (cases "draws (next_double R) n (seed_state R seed)")
  obtain ns g3 where d2: "draws (next_gauss R) n g2 = (ns, g3)"
    by (cases "draws (next_gauss R) n g2")
  have "length xs = n" using draws_length [of "next_double R" n "seed_state R seed"] d1 by simp
  moreover have "length ns = n" using draws_length [of "next_gauss R" n g2] d2 by simp
  ultimately show ?thesis using a by (auto simp: generate_def Let_def d1 d2)
qed

lemma generate_data_succeeds:
  "\<exists>c g'. generate_data R g = Inr (c, g') \<and>
     length (d_train_idx c) = 80 \<and> length (d_val_idx c) = 20 \<and>
     length (d_x_train c) = 80 \<and> length (d_y_train c) = 80 \<and>
     length (d_x_val c) = 20 \<and> length (d_y_val c) = 20 \<and>
     mset (d_train_idx c @ d_val_idx c) = mset [0..<100]"
proof -
  obtain x y g1 where gen: "generate R 42 100 1 2 (1 / 10) g = ((x, y), g1)"
    by (cases "generate R 42 100 1 2 (1 / 10) g") auto
  obtain tr va g2 where sp: "shuffle_split R 100 80 g1 = ((tr, va), g2)"
    by (cases "shuffle_split R 100 80 g1") auto
  from generate_lengths [OF gen] have lx: "length x = 100" and ly: "length y = 100" by simp_all
  from shuffle_split_partition [OF sp] have
    p: "length tr + length va = 100" "mset (tr @ va) = mset [0..<100]"
      "set tr \<union> set va = {0..<100}" by simp_all
  obtain idx h where sh: "shuffle R [0..<100] g1 = (idx, h)" by (cases "shuffle R [0..<100] g1")
  have "length idx = 100" using shuffle_length [of R "[0..<100]" g1] sh by simp
  then have ltr: "length tr = 80"
    using sp sh by (auto simp: shuffle_split_def slice_to_def slice_bound_def)
  with p(1) have lva: "length va = 20" by simp
  have rtr: "set tr \<subseteq> {0..<100}" and rva: "set va \<subseteq> {0..<100}" using p(3) by auto
  have t: "take_rows x tr = Inr (map (\<lambda>i. x ! i) tr)" "take_rows y tr = Inr (map (\<lambda>i. y ! i) tr)"
    "take_rows x va = Inr (map (\<lambda>i. x ! i) va)" "take_rows y va = Inr (map (\<lambda>i. y ! i) va)"
    using rtr rva lx ly by (simp_all add: take_rows_in_range)
  show ?thesis
    unfolding generate_data_def gen sp prod.case t sum.case
    using ltr lva p(2) by simp
qed

text \<open>
  The optimisation step on the whole training set is the step of the NumPy loop.
\<close>

lemma train_step_is_gd_step:
  "(bias (snd (train_step lr x y m)), weight (snd (train_step lr x y m))) =
     gd_step lr x y (bias m, weight m)"
  by (simp add: train_step_def gd_step_def Let_def)

end
